theory Spec2Isabelle
  imports Complex_Main "HOL-Library.AList" "HOL-Library.Multiset"
begin

section \<open>The BM25 memory engine of memory_engine.py\<close>

text \<open>
  This theory embeds \<^verbatim>\<open>Yunshu_System/Core_Layer/Agent_Core/memory_engine.py\<close>: the
  class \<^verbatim>\<open>SimpleBM25\<close> (tokenizer, \<^verbatim>\<open>fit\<close>, \<^verbatim>\<open>search\<close>, \<^verbatim>\<open>save\<close>, \<^verbatim>\<open>load\<close>) and the class
  \<^verbatim>\<open>MemoryManager\<close> (\<^verbatim>\<open>_preload_indices\<close>, \<^verbatim>\<open>build_novel_index\<close>, \<^verbatim>\<open>query\<close>,
  \<^verbatim>\<open>search_all\<close>).

  Conventions of the embedding.
  \<^item> A Python \<^verbatim>\<open>str\<close> is a sequence of code points: \<open>ustring\<close> is a list of natural
    numbers, so that \<open>length\<close> counts what Python's \<^verbatim>\<open>len\<close> counts.
  \<^item> A Python \<^verbatim>\<open>int\<close> is an \<open>int\<close>. A Python \<^verbatim>\<open>float\<close> is a \<open>real\<close>: rounding is not
    modelled, every score is the exact value of the expression the code evaluates.
  \<^item> A \<^verbatim>\<open>dict\<close> and a \<^verbatim>\<open>Counter\<close> are association lists in insertion order, with
    distinct keys.
  \<^item> Every exception the modelled code can raise is a value of \<open>error\<close>; a function
    that can raise returns \<open>error + 'a\<close>, with \<open>Inl\<close> for the exception.
\<close>

type_synonym ustring = "nat list"

datatype error =
    ZeroDivisionError
  | IndexError
  | KeyError
  | TypeError
  | AttributeError
  | FileNotFoundError
  | OSError
  | UnicodeEncodeError
  | JSONDecodeError

subsection \<open>The tokenizer\<close>

text \<open>
  \<^verbatim>\<open>re.sub(r'[^\w\u4e00-\u9fff]', '', text)\<close> deletes every character outside the class:
  it keeps a character that is a word character or lies in U+4E00..U+9FFF. For a \<^verbatim>\<open>str\<close>
  pattern \<^verbatim>\<open>\w\<close> is \<^verbatim>\<open>[a-zA-Z0-9_]\<close> on ASCII; beyond ASCII it is decided by the Unicode
  character database, which is not part of the repository: the parameter \<open>uni\<close> stands
  for that table.
\<close>

definition word_char :: "(nat \<Rightarrow> bool) \<Rightarrow> nat \<Rightarrow> bool" where
  "word_char uni c =
     (if c < 128
      then c = 95 \<or> (48 \<le> c \<and> c \<le> 57) \<or> (65 \<le> c \<and> c \<le> 90) \<or> (97 \<le> c \<and> c \<le> 122)
      else uni c)"

definition cjk :: "nat \<Rightarrow> bool" where
  "cjk c = (19968 \<le> c \<and> c \<le> 40959)"

definition re_sub :: "(nat \<Rightarrow> bool) \<Rightarrow> ustring \<Rightarrow> ustring" where
  "re_sub uni text = filter (\<lambda>c. word_char uni c \<or> cjk c) text"

text \<open>\<^verbatim>\<open>text[i:j]\<close> for \<open>0 \<le> i \<le> j\<close>.\<close>

definition slice :: "'a list \<Rightarrow> nat \<Rightarrow> nat \<Rightarrow> 'a list" where
  "slice xs i j = take (j - i) (drop i xs)"

definition tokenize :: "(nat \<Rightarrow> bool) \<Rightarrow> ustring \<Rightarrow> ustring list" where
  "tokenize uni text =
     (let t = re_sub uni text
      in if length t < 2 then [t]
         else map (\<lambda>i. slice t i (i + 2)) [0..<length t - 1])"

subsection \<open>Documents and the index\<close>

text \<open>
  A document is the dictionary \<^verbatim>\<open>{'content': str, 'meta': {'path': str, 'filename': str}}\<close>
  that \<^verbatim>\<open>build_novel_index\<close> creates and \<^verbatim>\<open>query\<close> reads.
\<close>

record doc_meta =
  path :: ustring
  filename :: ustring

record document =
  content :: ustring
  meta :: doc_meta

text \<open>
  \<^verbatim>\<open>collections.Counter\<close>: reading a missing key gives 0, counting a key that is
  already present keeps its position, a new key goes to the end.
\<close>

type_synonym counter = "(ustring \<times> int) list"

definition counter_get :: "counter \<Rightarrow> ustring \<Rightarrow> int" where
  "counter_get c t = (case map_of c t of None \<Rightarrow> 0 | Some n \<Rightarrow> n)"

definition counter_incr :: "counter \<Rightarrow> ustring \<Rightarrow> counter" where
  "counter_incr c t = AList.update t (counter_get c t + 1) c"

text \<open>\<^verbatim>\<open>c.update(iterable)\<close>; \<^verbatim>\<open>Counter(iterable)\<close> is the update of the empty counter.\<close>

definition counter_update :: "counter \<Rightarrow> ustring list \<Rightarrow> counter" where
  "counter_update c ts = fold (\<lambda>t c'. counter_incr c' t) ts c"

definition Counter :: "ustring list \<Rightarrow> counter" where
  "Counter ts = counter_update [] ts"

text \<open>
  The attributes of a \<^verbatim>\<open>SimpleBM25\<close> object. \<^verbatim>\<open>__init__\<close> does not set
  \<^verbatim>\<open>doc_term_counts\<close>: the attribute exists only after \<^verbatim>\<open>fit\<close> or \<^verbatim>\<open>load\<close>, and
  is \<open>None\<close> here until then.
\<close>

record bm25 =
  k1 :: real
  b :: real
  avgdl :: real
  doc_count :: int
  idf :: "(ustring \<times> real) list"
  doc_lengths :: "int list"
  documents :: "document list"
  doc_term_counts :: "counter list option"

definition SimpleBM25 :: "real \<Rightarrow> real \<Rightarrow> bm25" where
  "SimpleBM25 k1' b' =
     \<lparr>k1 = k1', b = b', avgdl = 0, doc_count = 0, idf = [], doc_lengths = [],
      documents = [], doc_term_counts = None\<rparr>"

subsection \<open>fit\<close>

text \<open>
  The first loop of \<^verbatim>\<open>fit\<close>, with its three accumulators \<^verbatim>\<open>self.doc_lengths\<close>,
  \<^verbatim>\<open>total_length\<close> and \<^verbatim>\<open>doc_term_counts\<close>.
\<close>

fun count_terms ::
  "(nat \<Rightarrow> bool) \<Rightarrow> document list \<Rightarrow> int list \<times> int \<times> counter list
     \<Rightarrow> int list \<times> int \<times> counter list" where
  "count_terms uni [] acc = acc"
| "count_terms uni (doc # docs) (lengths, total_length, term_counts) =
     (let terms = tokenize uni (content doc);
          len = int (length terms)
      in count_terms uni docs
           (lengths @ [len], total_length + len, term_counts @ [Counter terms]))"

text \<open>The second loop: \<^verbatim>\<open>df.update(term_counts.keys())\<close> for every document.\<close>

definition document_frequencies :: "counter list \<Rightarrow> counter" where
  "document_frequencies term_counts =
     fold (\<lambda>tc df. counter_update df (map fst tc)) term_counts []"

text \<open>
  The third loop. \<^verbatim>\<open>math.log\<close> raises on an argument that is not positive; the
  argument here is at least 1 (lemma \<open>idf_argument_ge_1\<close> below), so the loop cannot raise.
\<close>

definition idf_value :: "int \<Rightarrow> int \<Rightarrow> real" where
  "idf_value n freq =
     ln ((real_of_int n - real_of_int freq + 0.5) / (real_of_int freq + 0.5) + 1)"

definition fit :: "(nat \<Rightarrow> bool) \<Rightarrow> bm25 \<Rightarrow> document list \<Rightarrow> bm25" where
  "fit uni self docs =
     (let n = int (length docs);
          (lengths, total_length, term_counts) = count_terms uni docs ([], 0, []);
          avg = (if n > 0 then real_of_int total_length / real_of_int n else 0);
          df = document_frequencies term_counts
      in self\<lparr>documents := docs, doc_count := n, doc_lengths := lengths, avgdl := avg,
              idf := map (\<lambda>(term, freq). (term, idf_value n freq)) df,
              doc_term_counts := Some term_counts\<rparr>)"

subsection \<open>search\<close>

text \<open>Float division: \<^verbatim>\<open>x / y\<close> raises \<^verbatim>\<open>ZeroDivisionError\<close> when \<open>y\<close> is zero.\<close>

definition truediv :: "real \<Rightarrow> real \<Rightarrow> error + real" where
  "truediv x y = (if y = 0 then Inl ZeroDivisionError else Inr (x / y))"

text \<open>\<^verbatim>\<open>xs[i]\<close> for an index \<open>i \<ge> 0\<close>.\<close>

definition index :: "'a list \<Rightarrow> nat \<Rightarrow> error + 'a" where
  "index xs i = (if i < length xs then Inr (xs ! i) else Inl IndexError)"

text \<open>\<^verbatim>\<open>xs[:k]\<close>: a negative \<open>k\<close> counts from the end.\<close>

definition slice_to :: "'a list \<Rightarrow> int \<Rightarrow> 'a list" where
  "slice_to xs k = (if 0 \<le> k then take (nat k) xs else take (nat (int (length xs) + k)) xs)"

text \<open>
  The inner loop of \<^verbatim>\<open>search\<close> over the query terms; \<open>score\<close> is the accumulator.
  The quotient \<^verbatim>\<open>self.b * doc_len / self.avgdl\<close> is evaluated before the outer division.
\<close>

fun term_loop :: "bm25 \<Rightarrow> int \<Rightarrow> counter \<Rightarrow> ustring list \<Rightarrow> real \<Rightarrow> error + real" where
  "term_loop self doc_len term_counts [] score = Inr score"
| "term_loop self doc_len term_counts (t # ts) score =
     (case map_of (idf self) t of
        None \<Rightarrow> term_loop self doc_len term_counts ts score
      | Some idf_t \<Rightarrow>
          (let freq = real_of_int (counter_get term_counts t);
               numerator = idf_t * freq * (k1 self + 1)
           in case truediv (b self * real_of_int doc_len) (avgdl self) of
                Inl e \<Rightarrow> Inl e
              | Inr q \<Rightarrow>
                  (case truediv numerator (freq + k1 self * (1 - b self + q)) of
                     Inl e \<Rightarrow> Inl e
                   | Inr x \<Rightarrow> term_loop self doc_len term_counts ts (score + x))))"

text \<open>
  The body of the outer loop up to the end of the inner loop: the score of document
  \<open>i\<close>, or the exception raised on the way (\<^verbatim>\<open>self.doc_lengths[i]\<close>,
  \<^verbatim>\<open>self.doc_term_counts[i]\<close>, a division).
\<close>

definition doc_score :: "bm25 \<Rightarrow> ustring list \<Rightarrow> nat \<Rightarrow> error + real" where
  "doc_score self query_terms i =
     (case index (doc_lengths self) i of
        Inl e \<Rightarrow> Inl e
      | Inr doc_len \<Rightarrow>
     (case doc_term_counts self of
        None \<Rightarrow> Inl AttributeError
      | Some all_counts \<Rightarrow>
     (case index all_counts i of
        Inl e \<Rightarrow> Inl e
      | Inr term_counts \<Rightarrow> term_loop self doc_len term_counts query_terms 0)))"

text \<open>The outer loop over \<^verbatim>\<open>range(self.doc_count)\<close>; \<open>scores\<close> is the accumulator.\<close>

fun doc_loop ::
  "bm25 \<Rightarrow> ustring list \<Rightarrow> nat list \<Rightarrow> (real \<times> document) list
     \<Rightarrow> error + (real \<times> document) list" where
  "doc_loop self query_terms [] scores = Inr scores"
| "doc_loop self query_terms (i # is) scores =
     (case doc_score self query_terms i of
        Inl e \<Rightarrow> Inl e
      | Inr score \<Rightarrow>
          if score > 0
          then (case index (documents self) i of
                  Inl e \<Rightarrow> Inl e
                | Inr doc \<Rightarrow> doc_loop self query_terms is (scores @ [(score, doc)]))
          else doc_loop self query_terms is scores)"

text \<open>
  \<^verbatim>\<open>scores.sort(key=lambda x: x[0], reverse=True)\<close> is a stable sort by descending
  score: entries of equal score keep their order. \<open>sort_key\<close> is stable, and
  negating the key reverses the order of the keys only.
\<close>

definition sort_desc :: "(real \<times> 'a) list \<Rightarrow> (real \<times> 'a) list" where
  "sort_desc scores = sort_key (\<lambda>x. - fst x) scores"

definition search ::
  "(nat \<Rightarrow> bool) \<Rightarrow> bm25 \<Rightarrow> ustring \<Rightarrow> int \<Rightarrow> error + (real \<times> document) list" where
  "search uni self query_text top_k =
     (case doc_loop self (tokenize uni query_text) [0..<nat (doc_count self)] [] of
        Inl e \<Rightarrow> Inl e
      | Inr scores \<Rightarrow> Inr (slice_to (sort_desc scores) top_k))"

subsection \<open>JSON values\<close>

text \<open>
  What \<^verbatim>\<open>json.load\<close> returns: \<^verbatim>\<open>None\<close>, a \<^verbatim>\<open>bool\<close>, an \<^verbatim>\<open>int\<close>, a \<^verbatim>\<open>float\<close>, a \<^verbatim>\<open>str\<close>, a
  \<^verbatim>\<open>list\<close>, or a \<^verbatim>\<open>dict\<close> with string keys (its items in the order of the file).
\<close>

datatype json =
    JNull
  | JBool bool
  | JInt int
  | JFloat real
  | JStr ustring
  | JArr "json list"
  | JObj "(ustring \<times> json) list"

text \<open>
  A string can be written to a file opened with \<^verbatim>\<open>encoding='utf-8'\<close> unless it holds a
  surrogate code point (U+D800..U+DFFF), as the name of a file does whose bytes are not
  UTF-8. \<^verbatim>\<open>json.dump(data, f, ensure_ascii=False)\<close> writes every string of \<open>data\<close>
  as it is, keys included.
\<close>

definition utf8_ok :: "ustring \<Rightarrow> bool" where
  "utf8_ok s = (\<forall>c\<in>set s. c < 55296 \<or> 57343 < c)"

fun json_ok :: "json \<Rightarrow> bool" where
  "json_ok (JStr s) = utf8_ok s"
| "json_ok (JArr xs) = (\<forall>x\<in>set xs. json_ok x)"
| "json_ok (JObj items) = (\<forall>kv\<in>set items. utf8_ok (fst kv) \<and> json_ok (snd kv))"
| "json_ok j = True"

text \<open>The code points of an ASCII string literal of the source, such as \<^verbatim>\<open>'k1'\<close>.\<close>

definition ustr :: "string \<Rightarrow> ustring" where
  "ustr s = map of_char s"

text \<open>Sequencing of steps that can raise.\<close>

definition ebind :: "error + 'a \<Rightarrow> ('a \<Rightarrow> error + 'b) \<Rightarrow> error + 'b" where
  "ebind r f = (case r of Inl e \<Rightarrow> Inl e | Inr x \<Rightarrow> f x)"

text \<open>\<^verbatim>\<open>data[key]\<close> for a string key.\<close>

definition getitem :: "json \<Rightarrow> ustring \<Rightarrow> error + json" where
  "getitem data key =
     (case data of
        JObj items \<Rightarrow> (case map_of items key of None \<Rightarrow> Inl KeyError | Some v \<Rightarrow> Inr v)
      | _ \<Rightarrow> Inl TypeError)"

text \<open>
  The attributes of an index are typed in this model. \<^verbatim>\<open>load\<close> stores whatever
  the file holds; a value of another type than \<^verbatim>\<open>save\<close> writes makes the code raise
  when \<^verbatim>\<open>search\<close> or \<^verbatim>\<open>query\<close> first uses it, and makes the model raise \<open>TypeError\<close>
  (or \<open>KeyError\<close>, inside a document) in \<^verbatim>\<open>load\<close> already. A number read for a
  \<^verbatim>\<open>float\<close> attribute may be an \<^verbatim>\<open>int\<close>.
\<close>

definition as_number :: "json \<Rightarrow> error + real" where
  "as_number j = (case j of JInt n \<Rightarrow> Inr (real_of_int n) | JFloat x \<Rightarrow> Inr x | _ \<Rightarrow> Inl TypeError)"

definition as_int :: "json \<Rightarrow> error + int" where
  "as_int j = (case j of JInt n \<Rightarrow> Inr n | _ \<Rightarrow> Inl TypeError)"

definition as_str :: "json \<Rightarrow> error + ustring" where
  "as_str j = (case j of JStr s \<Rightarrow> Inr s | _ \<Rightarrow> Inl TypeError)"

definition as_list :: "json \<Rightarrow> error + json list" where
  "as_list j = (case j of JArr xs \<Rightarrow> Inr xs | _ \<Rightarrow> Inl TypeError)"

definition as_dict :: "json \<Rightarrow> error + (ustring \<times> json) list" where
  "as_dict j = (case j of JObj items \<Rightarrow> Inr items | _ \<Rightarrow> Inl TypeError)"

fun each :: "('a \<Rightarrow> error + 'b) \<Rightarrow> 'a list \<Rightarrow> error + 'b list" where
  "each f [] = Inr []"
| "each f (x # xs) = ebind (f x) (\<lambda>y. ebind (each f xs) (\<lambda>ys. Inr (y # ys)))"

definition each_value :: "(json \<Rightarrow> error + 'b) \<Rightarrow> (ustring \<times> json) list \<Rightarrow> error + (ustring \<times> 'b) list" where
  "each_value f items = each (\<lambda>kv. ebind (f (snd kv)) (\<lambda>v. Inr (fst kv, v))) items"

subsection \<open>save and load\<close>

text \<open>
  \<^verbatim>\<open>save\<close> writes the dictionary \<^verbatim>\<open>data\<close> with \<^verbatim>\<open>json.dump\<close>, \<^verbatim>\<open>load\<close> reads the file
  with \<^verbatim>\<open>json.load\<close> and takes the attributes from the dictionary by their keys.
  The characters of the JSON text are not modelled. A file is
  \<^item> \<open>Saved v\<close>: a text that \<^verbatim>\<open>json.load\<close> parses to the value \<open>v\<close>; this is what
    a completed \<^verbatim>\<open>json.dump\<close> of \<open>v\<close> leaves (the contract of the \<^verbatim>\<open>json\<close> module for
    strings, integers, floats, lists and dictionaries with string keys);
  \<^item> \<open>Corrupt\<close>: a text on which \<^verbatim>\<open>json.load\<close> raises, such as the beginning of an
    object that a \<^verbatim>\<open>json.dump\<close> leaves when it is interrupted by an exception;
  \<^item> \<open>Unreadable\<close>: a file that cannot be opened for reading.
  Files are kept in a store from paths to contents; \<open>can_open p\<close> says whether
  \<^verbatim>\<open>open(p, 'w')\<close> succeeds.
\<close>

datatype sidecar = Corrupt | Unreadable | Saved json

text \<open>\<^verbatim>\<open>dict(c)\<close> of a counter and \<^verbatim>\<open>Counter(c)\<close> of a dictionary keep the items.\<close>

definition dict :: "counter \<Rightarrow> (ustring \<times> int) list" where
  "dict c = c"

definition Counter_of_dict :: "(ustring \<times> int) list \<Rightarrow> counter" where
  "Counter_of_dict c = c"

text \<open>The JSON values of a document and of the dictionary \<^verbatim>\<open>data\<close> that \<^verbatim>\<open>save\<close> builds.\<close>

definition document_json :: "document \<Rightarrow> json" where
  "document_json d =
     JObj [(ustr ''content'', JStr (content d)),
           (ustr ''meta'', JObj [(ustr ''path'', JStr (path (meta d))),
                                 (ustr ''filename'', JStr (filename (meta d)))])]"

definition index_json :: "bm25 \<Rightarrow> counter list \<Rightarrow> json" where
  "index_json self all_counts =
     JObj [(ustr ''k1'', JFloat (k1 self)),
           (ustr ''b'', JFloat (b self)),
           (ustr ''avgdl'', JFloat (avgdl self)),
           (ustr ''doc_count'', JInt (doc_count self)),
           (ustr ''idf'', JObj (map (\<lambda>kv. (fst kv, JFloat (snd kv))) (idf self))),
           (ustr ''doc_lengths'', JArr (map JInt (doc_lengths self))),
           (ustr ''documents'', JArr (map document_json (documents self))),
           (ustr ''doc_term_counts'',
              JArr (map (\<lambda>c. JObj (map (\<lambda>kv. (fst kv, JInt (snd kv))) (dict c))) all_counts))]"

text \<open>
  \<^verbatim>\<open>save\<close>. Building \<^verbatim>\<open>data\<close> reads \<^verbatim>\<open>self.doc_term_counts\<close> before the file is opened:
  on an index that was never fitted or loaded \<^verbatim>\<open>save\<close> raises and writes nothing. When
  the file cannot be opened it is left as it was. When a string cannot be encoded the
  exception leaves \<^verbatim>\<open>json.dump\<close> in the middle of the text, and the file stays
  truncated. \<^verbatim>\<open>save\<close> has no handler for any of these. An error of the operating
  system while the opened file is written (a full disk) is not modelled.
\<close>

definition save ::
  "bm25 \<Rightarrow> 'p \<Rightarrow> ('p \<Rightarrow> bool) \<Rightarrow> ('p \<rightharpoonup> sidecar) \<Rightarrow> ('p \<rightharpoonup> sidecar) \<times> (error + unit)" where
  "save self p can_open store =
     (case doc_term_counts self of
        None \<Rightarrow> (store, Inl AttributeError)
      | Some all_counts \<Rightarrow>
          if \<not> can_open p then (store, Inl OSError)
          else if json_ok (index_json self all_counts)
          then (store(p \<mapsto> Saved (index_json self all_counts)), Inr ())
          else (store(p \<mapsto> Corrupt), Inl UnicodeEncodeError))"

text \<open>The documents of a loaded index, read from the JSON value.\<close>

definition as_document :: "json \<Rightarrow> error + document" where
  "as_document j =
     ebind (ebind (getitem j (ustr ''content'')) as_str) (\<lambda>c.
     ebind (getitem j (ustr ''meta'')) (\<lambda>m.
     ebind (ebind (getitem m (ustr ''path'')) as_str) (\<lambda>p.
     ebind (ebind (getitem m (ustr ''filename'')) as_str) (\<lambda>f.
     Inr \<lparr>content = c, meta = \<lparr>path = p, filename = f\<rparr>\<rparr>))))"

text \<open>
  \<^verbatim>\<open>load\<close>: the eight lookups \<^verbatim>\<open>data['k1']\<close>, ..., \<^verbatim>\<open>data['doc_term_counts']\<close> in the
  order of the source, the first missing key raising \<open>KeyError\<close>.
\<close>

definition load_data :: "bm25 \<Rightarrow> json \<Rightarrow> error + bm25" where
  "load_data self data =
     ebind (ebind (getitem data (ustr ''k1'')) as_number) (\<lambda>v_k1.
     ebind (ebind (getitem data (ustr ''b'')) as_number) (\<lambda>v_b.
     ebind (ebind (getitem data (ustr ''avgdl'')) as_number) (\<lambda>v_avgdl.
     ebind (ebind (getitem data (ustr ''doc_count'')) as_int) (\<lambda>v_doc_count.
     ebind (ebind (ebind (getitem data (ustr ''idf'')) as_dict) (each_value as_number)) (\<lambda>v_idf.
     ebind (ebind (ebind (getitem data (ustr ''doc_lengths'')) as_list) (each as_int)) (\<lambda>v_doc_lengths.
     ebind (ebind (ebind (getitem data (ustr ''documents'')) as_list) (each as_document)) (\<lambda>v_documents.
     ebind (ebind (ebind (getitem data (ustr ''doc_term_counts'')) as_list)
              (each (\<lambda>c. ebind (as_dict c) (each_value as_int)))) (\<lambda>v_counts.
     Inr (self\<lparr>k1 := v_k1, b := v_b, avgdl := v_avgdl, doc_count := v_doc_count,
                idf := v_idf, doc_lengths := v_doc_lengths, documents := v_documents,
                doc_term_counts := Some (map Counter_of_dict v_counts)\<rparr>)))))))))"

definition load :: "bm25 \<Rightarrow> 'p \<Rightarrow> ('p \<rightharpoonup> sidecar) \<Rightarrow> error + bm25" where
  "load self p store =
     (case store p of
        None \<Rightarrow> Inl FileNotFoundError
      | Some Corrupt \<Rightarrow> Inl JSONDecodeError
      | Some Unreadable \<Rightarrow> Inl OSError
      | Some (Saved data) \<Rightarrow> load_data self data)"



text \<open>A document all of whose strings can be written to a UTF-8 file.\<close>

definition document_ok :: "document \<Rightarrow> bool" where
  "document_ok d =
     (utf8_ok (content d) \<and> utf8_ok (path (meta d)) \<and> utf8_ok (filename (meta d)))"

subsection \<open>The manager\<close>

text \<open>
  The files that \<^verbatim>\<open>MemoryManager\<close> works on are given by what the file system answers.
  \<^item> \<open>listing\<close> is \<open>None\<close> when \<^verbatim>\<open>novels_root\<close> does not exist, and otherwise the result
    of \<^verbatim>\<open>novels_root.iterdir()\<close>: the entries in their order, each with its name and
    whether it is a directory.
  \<^item> \<open>place name\<close> is the location that \<^verbatim>\<open>novels_root / name\<close> denotes, for any string
    \<open>name\<close>; two names that denote the same location have the same \<open>place\<close>.
  \<^item> \<open>dirs\<close> tells what exists at a location: nothing (\<open>None\<close>), a regular file, or a
    directory, which carries the files that \<^verbatim>\<open>os.walk\<close> yields beneath it, in that
    order, each with its name, its path relative to the root, and its text (\<open>None\<close>
    when opening or decoding the file raises). The index file is not among them: its
    name does not end in \<^verbatim>\<open>.txt\<close>.
  \<^item> \<open>index_files\<close> holds, under a location, the content of the file
    \<^verbatim>\<open>.yunshu_memory.json\<close> in it, and \<open>can_write\<close> says whether that file can be
    opened for writing.
  The state of the manager adds the dictionary \<^verbatim>\<open>self.engines\<close>, in insertion order.
\<close>

record walk_file =
  file_name :: ustring
  rel_path :: ustring
  file_text :: "ustring option"

datatype node = File | Dir "walk_file list"

record disk =
  listing :: "(ustring \<times> bool) list option"
  place :: "ustring \<Rightarrow> ustring"
  dirs :: "ustring \<rightharpoonup> node"
  index_files :: "ustring \<rightharpoonup> sidecar"
  can_write :: "ustring \<Rightarrow> bool"

record state = disk +
  engines :: "(ustring \<times> bm25) list"


text \<open>\<^verbatim>\<open>(self.novels_root / novel_name).exists()\<close> and what is found there.\<close>

definition novel_dir :: "state \<Rightarrow> ustring \<Rightarrow> node option" where
  "novel_dir st novel_name = dirs st (place st novel_name)"

text \<open>\<^verbatim>\<open>self._get_index_path(novel_name)\<close>, as the key of \<open>index_files\<close>.\<close>

definition index_path :: "state \<Rightarrow> ustring \<Rightarrow> ustring" where
  "index_path st novel_name = place st novel_name"

text \<open>The engines of the manager are made by \<^verbatim>\<open>SimpleBM25()\<close>, with the default parameters.\<close>

definition default_engine :: bm25 where
  "default_engine = SimpleBM25 1.5 0.75"

text \<open>
  The loop of \<^verbatim>\<open>_preload_indices\<close>: an exception of \<^verbatim>\<open>load\<close> is caught and the
  collection is skipped.
\<close>

fun preload_loop :: "state \<Rightarrow> (ustring \<times> bool) list \<Rightarrow> state" where
  "preload_loop st [] = st"
| "preload_loop st ((novel_name, is_dir) # items) =
     (if is_dir
      then (if index_files st (index_path st novel_name) \<noteq> None
            then (case load default_engine (index_path st novel_name) (index_files st) of
                    Inl e \<Rightarrow> preload_loop st items
                  | Inr engine \<Rightarrow>
                      preload_loop
                        (st\<lparr>engines := AList.update novel_name engine (engines st)\<rparr>) items)
            else preload_loop st items)
      else preload_loop st items)"

definition preload_indices :: "state \<Rightarrow> state" where
  "preload_indices st =
     (case listing st of
        None \<Rightarrow> st
      | Some items \<Rightarrow> preload_loop st items)"


definition MemoryManager :: "disk \<Rightarrow> state" where
  "MemoryManager d =
     preload_indices
       \<lparr>listing = listing d, place = place d, dirs = dirs d, index_files = index_files d,
        can_write = can_write d, engines = []\<rparr>"

text \<open>\<^verbatim>\<open>name.endswith(suffix)\<close>.\<close>

definition endswith :: "ustring \<Rightarrow> ustring \<Rightarrow> bool" where
  "endswith name suffix =
     (length suffix \<le> length name \<and> drop (length name - length suffix) name = suffix)"

text \<open>
  The walk of \<^verbatim>\<open>build_novel_index\<close>: every file whose name ends in \<^verbatim>\<open>.txt\<close> and
  that can be read becomes one document; a file that cannot be read is reported and
  skipped.
\<close>

fun read_files :: "walk_file list \<Rightarrow> document list \<Rightarrow> document list" where
  "read_files [] docs = docs"
| "read_files (f # fs) docs =
     (if endswith (file_name f) (ustr ''.txt'')
      then (case file_text f of
              None \<Rightarrow> read_files fs docs
            | Some text \<Rightarrow>
                read_files fs
                  (docs @ [\<lparr>content = text,
                            meta = \<lparr>path = rel_path f, filename = file_name f\<rparr>\<rparr>]))
      else read_files fs docs)"

text \<open>The list \<^verbatim>\<open>documents\<close> that \<^verbatim>\<open>build_novel_index\<close> collects for a name.\<close>

definition novel_documents :: "state \<Rightarrow> ustring \<Rightarrow> document list" where
  "novel_documents st novel_name =
     (case novel_dir st novel_name of
        None \<Rightarrow> []
      | Some item \<Rightarrow> read_files (case item of File \<Rightarrow> [] | Dir fs \<Rightarrow> fs) [])"

text \<open>
  The messages \<^verbatim>\<open>"Novel directory not found"\<close>, \<^verbatim>\<open>"No documents found"\<close> and
  \<^verbatim>\<open>f"Indexed {len(documents)} chapters."\<close>.
\<close>

datatype message = Not_found | No_documents | Indexed nat

text \<open>
  \<^verbatim>\<open>build_novel_index\<close>. \<^verbatim>\<open>os.walk\<close> on a regular file yields nothing. The call of
  \<^verbatim>\<open>save\<close> is not inside a \<^verbatim>\<open>try\<close>: its exception leaves \<^verbatim>\<open>build_novel_index\<close> before
  the engine is put into the cache.
\<close>

definition build_novel_index ::
  "(nat \<Rightarrow> bool) \<Rightarrow> state \<Rightarrow> ustring \<Rightarrow> state \<times> (error + bool \<times> message)" where
  "build_novel_index uni st novel_name =
     (case novel_dir st novel_name of
        None \<Rightarrow> (st, Inr (False, Not_found))
      | Some item \<Rightarrow>
          (let docs = read_files (case item of File \<Rightarrow> [] | Dir fs \<Rightarrow> fs) []
           in if docs = [] then (st, Inr (False, No_documents))
              else (let engine = fit uni default_engine docs
                    in case save engine (index_path st novel_name) (can_write st)
                              (index_files st) of
                         (store, Inl e) \<Rightarrow> (st\<lparr>index_files := store\<rparr>, Inl e)
                       | (store, Inr u) \<Rightarrow>
                           (st\<lparr>index_files := store,
                               engines := AList.update novel_name engine (engines st)\<rparr>,
                            Inr (True, Indexed (length docs))))))"

text \<open>The records that \<^verbatim>\<open>query\<close> returns; the preview is \<^verbatim>\<open>doc['content'][:200] + "..."\<close>.\<close>

record result =
  r_score :: real
  r_novel :: ustring
  r_filename :: ustring
  r_path :: ustring
  r_preview :: ustring

definition format_result :: "ustring \<Rightarrow> real \<times> document \<Rightarrow> result" where
  "format_result novel_name x =
     \<lparr>r_score = fst x, r_novel = novel_name, r_filename = filename (meta (snd x)),
      r_path = path (meta (snd x)), r_preview = take 200 (content (snd x)) @ ustr ''...''\<rparr>"

text \<open>The second half of \<^verbatim>\<open>query\<close>, from \<^verbatim>\<open>engine = self.engines[novel_name]\<close> on.\<close>

definition query_cached ::
  "(nat \<Rightarrow> bool) \<Rightarrow> state \<Rightarrow> ustring \<Rightarrow> ustring \<Rightarrow> int \<Rightarrow> state \<times> (error + result list)" where
  "query_cached uni st novel_name query_text top_k =
     (case map_of (engines st) novel_name of
        None \<Rightarrow> (st, Inl KeyError)
      | Some engine \<Rightarrow>
          (case search uni engine query_text top_k of
             Inl e \<Rightarrow> (st, Inl e)
           | Inr results \<Rightarrow> (st, Inr (map (format_result novel_name) results))))"

text \<open>
  \<^verbatim>\<open>query\<close>. The call of \<^verbatim>\<open>load\<close> in the first branch is not inside a \<^verbatim>\<open>try\<close>: its
  exception leaves \<^verbatim>\<open>query\<close>.
\<close>

definition query ::
  "(nat \<Rightarrow> bool) \<Rightarrow> state \<Rightarrow> ustring \<Rightarrow> ustring \<Rightarrow> int \<Rightarrow> state \<times> (error + result list)" where
  "query uni st novel_name query_text top_k =
     (if map_of (engines st) novel_name = None
      then (if index_files st (index_path st novel_name) \<noteq> None
            then (case load default_engine (index_path st novel_name) (index_files st) of
                    Inl e \<Rightarrow> (st, Inl e)
                  | Inr engine \<Rightarrow>
                      query_cached uni
                        (st\<lparr>engines := AList.update novel_name engine (engines st)\<rparr>)
                        novel_name query_text top_k)
            else (case build_novel_index uni st novel_name of
                    (st', Inl e) \<Rightarrow> (st', Inl e)
                  | (st', Inr (success, msg)) \<Rightarrow>
                      if \<not> success then (st', Inr [])
                      else query_cached uni st' novel_name query_text top_k))
      else query_cached uni st novel_name query_text top_k)"

text \<open>
  The loop of \<^verbatim>\<open>search_all\<close> that builds every subdirectory of the root; the outcome
  of a build is dropped, its exception is not caught.
\<close>

fun build_all ::
  "(nat \<Rightarrow> bool) \<Rightarrow> (ustring \<times> bool) list \<Rightarrow> state \<Rightarrow> state \<times> (error + unit)" where
  "build_all uni [] st = (st, Inr ())"
| "build_all uni ((novel_name, is_dir) # items) st =
     (if is_dir
      then (case build_novel_index uni st novel_name of
              (st', Inl e) \<Rightarrow> (st', Inl e)
            | (st', Inr outcome) \<Rightarrow> build_all uni items st')
      else build_all uni items st)"




subsection \<open>The ranking as the specification words it\<close>

text \<open>
  These definitions follow the specification, not the code; they are stated over the
  document list alone and are compared with \<open>fit\<close> and \<open>search\<close> below.
  The document frequency of a term is the number of documents that contain it, the IDF
  table holds the terms of the corpus, and the score of a document is the sum of the
  BM25 terms of the query terms that the IDF table holds.
\<close>

definition spec_df :: "(nat \<Rightarrow> bool) \<Rightarrow> document list \<Rightarrow> ustring \<Rightarrow> nat" where
  "spec_df uni docs t = length (filter (\<lambda>d. t \<in> set (tokenize uni (content d))) docs)"

definition spec_idf :: "(nat \<Rightarrow> bool) \<Rightarrow> document list \<Rightarrow> ustring \<Rightarrow> real" where
  "spec_idf uni docs t =
     ln ((real (length docs) - real (spec_df uni docs t) + 0.5) / (real (spec_df uni docs t) + 0.5)
         + 1)"

definition spec_in_idf :: "(nat \<Rightarrow> bool) \<Rightarrow> document list \<Rightarrow> ustring \<Rightarrow> bool" where
  "spec_in_idf uni docs t = (\<exists>d\<in>set docs. t \<in> set (tokenize uni (content d)))"

definition spec_avgdl :: "(nat \<Rightarrow> bool) \<Rightarrow> document list \<Rightarrow> real" where
  "spec_avgdl uni docs =
     real (\<Sum>d\<leftarrow>docs. length (tokenize uni (content d))) / real (length docs)"

definition spec_freq :: "(nat \<Rightarrow> bool) \<Rightarrow> ustring \<Rightarrow> document \<Rightarrow> nat" where
  "spec_freq uni t d = count_list (tokenize uni (content d)) t"

definition spec_denominator ::
  "real \<Rightarrow> real \<Rightarrow> (nat \<Rightarrow> bool) \<Rightarrow> document list \<Rightarrow> ustring \<Rightarrow> document \<Rightarrow> real" where
  "spec_denominator k1' b' uni docs t d =
     real (spec_freq uni t d)
     + k1' * (1 - b' + b' * real (length (tokenize uni (content d))) / spec_avgdl uni docs)"

definition spec_score ::
  "real \<Rightarrow> real \<Rightarrow> (nat \<Rightarrow> bool) \<Rightarrow> document list \<Rightarrow> ustring \<Rightarrow> document \<Rightarrow> real" where
  "spec_score k1' b' uni docs query_text d =
     (\<Sum>t\<leftarrow>filter (spec_in_idf uni docs) (tokenize uni query_text).
        spec_idf uni docs t * real (spec_freq uni t d) * (k1' + 1)
        / spec_denominator k1' b' uni docs t d)"

text \<open>The formula is defined where no denominator it divides by is zero.\<close>

definition spec_defined ::
  "real \<Rightarrow> real \<Rightarrow> (nat \<Rightarrow> bool) \<Rightarrow> document list \<Rightarrow> ustring \<Rightarrow> bool" where
  "spec_defined k1' b' uni docs query_text =
     (\<forall>d\<in>set docs. \<forall>t\<in>set (tokenize uni query_text).
        spec_in_idf uni docs t \<longrightarrow> spec_denominator k1' b' uni docs t d \<noteq> 0)"

text \<open>The candidates: the documents of strictly positive score, in corpus order.\<close>

definition spec_candidates ::
  "real \<Rightarrow> real \<Rightarrow> (nat \<Rightarrow> bool) \<Rightarrow> document list \<Rightarrow> ustring \<Rightarrow> (real \<times> document) list" where
  "spec_candidates k1' b' uni docs query_text =
     filter (\<lambda>x. 0 < fst x) (map (\<lambda>d. (spec_score k1' b' uni docs query_text d, d)) docs)"



subsection \<open>Example inputs\<close>

text \<open>
  Two documents used in the instances below: the contents are \<^verbatim>\<open>abab\<close> and \<^verbatim>\<open>abxy\<close>,
  the files are \<^verbatim>\<open>n/1.txt\<close> and \<^verbatim>\<open>n/2.txt\<close> under the root.
\<close>

definition ex_doc1 :: document where
  "ex_doc1 = \<lparr>content = [97, 98, 97, 98],
     meta = \<lparr>path = [110, 47, 49, 46, 116, 120, 116],
             filename = [49, 46, 116, 120, 116]\<rparr>\<rparr>"

definition ex_doc2 :: document where
  "ex_doc2 = \<lparr>content = [97, 98, 120, 121],
     meta = \<lparr>path = [110, 47, 50, 46, 116, 120, 116],
             filename = [50, 46, 116, 120, 116]\<rparr>\<rparr>"

text \<open>
  A root directory with three collections: \<^verbatim>\<open>n\<close> holds \<^verbatim>\<open>1.txt\<close> and \<^verbatim>\<open>2.txt\<close> with the
  contents above, \<^verbatim>\<open>m\<close> holds \<^verbatim>\<open>3.txt\<close> with the content \<^verbatim>\<open>ab\<close>, and \<^verbatim>\<open>e\<close> holds only
  \<^verbatim>\<open>x.md\<close>; no index file exists, every file can be written. \<open>ex_state0\<close> is a manager
  on it, \<open>ex_state1\<close> the state after it has built the index of \<^verbatim>\<open>n\<close>, and
  \<open>ex_manager\<close> a manager created afterwards on the same files.
\<close>

definition ex_file1 :: walk_file where
  "ex_file1 = \<lparr>file_name = [49, 46, 116, 120, 116],
               rel_path = [110, 47, 49, 46, 116, 120, 116],
               file_text = Some [97, 98, 97, 98]\<rparr>"

definition ex_file2 :: walk_file where
  "ex_file2 = \<lparr>file_name = [50, 46, 116, 120, 116],
               rel_path = [110, 47, 50, 46, 116, 120, 116],
               file_text = Some [97, 98, 120, 121]\<rparr>"

definition ex_file3 :: walk_file where
  "ex_file3 = \<lparr>file_name = [51, 46, 116, 120, 116],
               rel_path = [109, 47, 51, 46, 116, 120, 116],
               file_text = Some [97, 98]\<rparr>"

definition ex_file_md :: walk_file where
  "ex_file_md = \<lparr>file_name = [120, 46, 109, 100],
                 rel_path = [101, 47, 120, 46, 109, 100],
                 file_text = Some [97, 98]\<rparr>"

definition ex_disk :: disk where
  "ex_disk =
     \<lparr>listing = Some [([110], True), ([109], True), ([101], True)],
      place = (\<lambda>name. name),
      dirs = [[110] \<mapsto> Dir [ex_file1, ex_file2], [109] \<mapsto> Dir [ex_file3],
              [101] \<mapsto> Dir [ex_file_md]],
      index_files = Map.empty,
      can_write = (\<lambda>p. True)\<rparr>"




text \<open>
  A root directory whose only collection \<^verbatim>\<open>s\<close> holds one readable text file with the
  content \<^verbatim>\<open>ab\<close>; the bytes of its name are not UTF-8, so that \<^verbatim>\<open>os.walk\<close> gives the
  name with the surrogate U+DCFF (56575) before \<^verbatim>\<open>.txt\<close>. \<open>ex_doc_bad\<close> is the
  document read from it, \<open>ex_state_bad\<close> a manager on that root.
\<close>

definition ex_file_bad :: walk_file where
  "ex_file_bad = \<lparr>file_name = [56575, 46, 116, 120, 116],
                  rel_path = [115, 47, 56575, 46, 116, 120, 116],
                  file_text = Some [97, 98]\<rparr>"

definition ex_doc_bad :: document where
  "ex_doc_bad = \<lparr>content = [97, 98],
     meta = \<lparr>path = [115, 47, 56575, 46, 116, 120, 116],
             filename = [56575, 46, 116, 120, 116]\<rparr>\<rparr>"




subsection \<open>Facts about the tokenizer\<close>

lemma slice_bigram:
  assumes "i + 1 < length t"
  shows "slice t i (i + 2) = [t ! i, t ! (i + 1)]"
proof -
  have "drop i t = t ! i # drop (Suc i) t"
    using assms by (simp add: Cons_nth_drop_Suc)
  moreover have "drop (Suc i) t = t ! (Suc i) # drop (Suc (Suc i)) t"
    using assms by (simp add: Cons_nth_drop_Suc)
  ultimately show ?thesis
    by (simp add: slice_def)
qed

lemma tokenize_not_Nil: "tokenize uni text \<noteq> []"
proof -
  have "[0..<length t - 1] \<noteq> []" if "\<not> length t < 2" for t :: ustring
    using that by simp
  then show ?thesis
    by (simp add: tokenize_def Let_def)
qed

lemma length_tokenize_pos: "1 \<le> length (tokenize uni text)"
  using tokenize_not_Nil [of uni "text"] by (cases "tokenize uni text") simp_all

text \<open>
  C6. The tokenizer is a function of its input alone. It first keeps exactly the
  characters that are word characters or lie in U+4E00..U+9FFF; when fewer than two
  characters remain it returns the one-element list holding the remaining string;
  otherwise, for a remaining string of length L, it returns the L - 1 bigrams
  \<open>[t ! i, t ! (i + 1)]\<close> for \<open>i = 0, ..., L - 2\<close> in this order, duplicates kept.
\<close>

theorem tokenize_bigrams:
  "tokenize uni text =
     (let t = filter (\<lambda>c. word_char uni c \<or> 19968 \<le> c \<and> c \<le> 40959) text
      in if length t < 2 then [t]
         else map (\<lambda>i. [t ! i, t ! (i + 1)]) [0..<length t - 1])
   \<and> (let t = filter (\<lambda>c. word_char uni c \<or> 19968 \<le> c \<and> c \<le> 40959) text
      in 2 \<le> length t \<longrightarrow> length (tokenize uni text) = length t - 1)"
proof -
  define t where "t = filter (\<lambda>c. word_char uni c \<or> 19968 \<le> c \<and> c \<le> 40959) text"
  have r: "re_sub uni text = t"
    by (simp add: re_sub_def cjk_def t_def)
  have m: "map (\<lambda>i. slice t i (i + 2)) [0..<length t - 1]
         = map (\<lambda>i. [t ! i, t ! (i + 1)]) [0..<length t - 1]"
  proof (rule map_cong [OF refl])
    fix i assume "i \<in> set [0..<length t - 1]"
    then have "i + 1 < length t" by auto
    then show "slice t i (i + 2) = [t ! i, t ! (i + 1)]" by (rule slice_bigram)
  qed
  have "tokenize uni text =
      (if length t < 2 then [t] else map (\<lambda>i. [t ! i, t ! (i + 1)]) [0..<length t - 1])"
    by (simp only: tokenize_def r Let_def m)
  moreover have "2 \<le> length t \<longrightarrow> length (tokenize uni text) = length t - 1"
    by (simp add: tokenize_def r)
  ultimately show ?thesis
    unfolding t_def [symmetric] Let_def by blast
qed

theorem tokenize_bigrams_witness:
  "tokenize bot [20113, 33298, 31995, 32479] =
     [[20113, 33298], [33298, 31995], [31995, 32479]]
   \<and> length (tokenize bot [20113, 33298, 31995, 32479]) = 4 - 1"
proof -
  have f: "filter (\<lambda>c. word_char bot c \<or> 19968 \<le> c \<and> c \<le> 40959)
             [20113, 33298, 31995, 32479] = [20113, 33298, 31995, 32479]"
    by simp
  have u: "[0..<3] = [0, 1, 2]"
    by (simp add: upt_rec)
  show ?thesis
    using tokenize_bigrams [of bot "[20113, 33298, 31995, 32479]"]
    unfolding f Let_def by (simp add: u)
qed

subsection \<open>Counters\<close>

lemma map_of_counter_incr:
  "map_of (counter_incr c t) = (map_of c)(t \<mapsto> counter_get c t + 1)"
  by (simp add: counter_incr_def update_conv')

lemma counter_get_incr:
  "counter_get (counter_incr c t) u = (if u = t then counter_get c t + 1 else counter_get c u)"
  by (simp add: counter_get_def map_of_counter_incr)

lemma keys_counter_incr: "fst ` set (counter_incr c t) = insert t (fst ` set c)"
  by (simp add: counter_incr_def dom_update)

lemma distinct_counter_incr:
  "distinct (map fst c) \<Longrightarrow> distinct (map fst (counter_incr c t))"
  by (simp add: counter_incr_def distinct_update)

lemma counter_get_update:
  "counter_get (counter_update c ts) u = counter_get c u + int (count_list ts u)"
  unfolding counter_update_def
  by (induction ts arbitrary: c) (simp_all add: counter_get_incr)

lemma keys_counter_update: "fst ` set (counter_update c ts) = fst ` set c \<union> set ts"
  unfolding counter_update_def
  by (induction ts arbitrary: c) (auto simp: keys_counter_incr)

lemma distinct_counter_update:
  "distinct (map fst c) \<Longrightarrow> distinct (map fst (counter_update c ts))"
  unfolding counter_update_def
  by (induction ts arbitrary: c) (simp_all add: distinct_counter_incr)

lemma counter_get_Counter: "counter_get (Counter ts) u = int (count_list ts u)"
proof -
  have "counter_get [] u = 0" by (simp add: counter_get_def)
  then show ?thesis by (simp add: Counter_def counter_get_update)
qed

lemma keys_Counter: "fst ` set (Counter ts) = set ts"
  by (simp add: Counter_def keys_counter_update)

lemma distinct_Counter: "distinct (map fst (Counter ts))"
  by (simp add: Counter_def distinct_counter_update)

lemma map_of_eq_None_keys: "map_of c u = None \<longleftrightarrow> u \<notin> fst ` set c"
  by (simp add: map_of_eq_None_iff)

lemma map_of_counter:
  "map_of c u = (if u \<in> fst ` set c then Some (counter_get c u) else None)"
  by (cases "map_of c u") (auto simp: counter_get_def map_of_eq_None_iff dest: map_of_SomeD intro: rev_image_eqI)

lemma count_terms_eq:
  "count_terms uni docs (ls, tot, tcs) =
     (ls @ map (\<lambda>d. int (length (tokenize uni (content d)))) docs,
      tot + (\<Sum>d\<leftarrow>docs. int (length (tokenize uni (content d)))),
      tcs @ map (\<lambda>d. Counter (tokenize uni (content d))) docs)"
  by (induction docs arbitrary: ls tot tcs) (simp_all add: Let_def)

lemma count_list_distinct:
  "distinct ks \<Longrightarrow> count_list ks u = (if u \<in> set ks then 1 else 0)"
  by (induction ks) auto

lemma df_fold_get:
  assumes "\<forall>tc\<in>set tcs. distinct (map fst tc)"
  shows "counter_get (fold (\<lambda>tc df. counter_update df (map fst tc)) tcs df0) u =
           counter_get df0 u + int (length (filter (\<lambda>tc. u \<in> fst ` set tc) tcs))"
  using assms
  by (induction tcs arbitrary: df0) (simp_all add: counter_get_update count_list_distinct)

lemma df_fold_keys:
  "fst ` set (fold (\<lambda>tc df. counter_update df (map fst tc)) tcs df0) =
     fst ` set df0 \<union> (\<Union>tc\<in>set tcs. fst ` set tc)"
  by (induction tcs arbitrary: df0) (auto simp: keys_counter_update)

subsection \<open>What fit computes\<close>

lemma fit_fields:
  "documents (fit uni self docs) = docs"
  "doc_count (fit uni self docs) = int (length docs)"
  "doc_lengths (fit uni self docs) = map (\<lambda>d. int (length (tokenize uni (content d)))) docs"
  "doc_term_counts (fit uni self docs) = Some (map (\<lambda>d. Counter (tokenize uni (content d))) docs)"
  "k1 (fit uni self docs) = k1 self"
  "b (fit uni self docs) = b self"
  by (simp_all add: fit_def count_terms_eq Let_def)

lemma sum_list_int_length:
  "(\<Sum>d\<leftarrow>docs. int (f d)) = int (\<Sum>d\<leftarrow>docs. f d)"
  by (induction docs) simp_all

lemma fit_avgdl:
  "avgdl (fit uni self docs) = (if docs = [] then 0 else spec_avgdl uni docs)"
  by (simp add: fit_def count_terms_eq Let_def spec_avgdl_def sum_list_int_length)

lemma total_length_ge:
  "length docs \<le> (\<Sum>d\<leftarrow>docs. length (tokenize uni (content d)))"
proof (induction docs)
  case Nil
  show ?case by simp
next
  case (Cons d docs)
  have "1 \<le> length (tokenize uni (content d))" by (rule length_tokenize_pos)
  with Cons show ?case by simp
qed

lemma spec_avgdl_ge_1:
  assumes "docs \<noteq> []"
  shows "1 \<le> spec_avgdl uni docs"
proof -
  have "0 < real (length docs)" using assms by simp
  moreover have "real (length docs) \<le> real (\<Sum>d\<leftarrow>docs. length (tokenize uni (content d)))"
    using total_length_ge [of docs uni] by simp
  ultimately show ?thesis
    by (simp add: spec_avgdl_def le_divide_eq)
qed

lemma map_of_map_value:
  "map_of (map (\<lambda>(k, v). (k, f v)) xs) t = map_option f (map_of xs t)"
  by (induction xs) auto

lemma document_frequencies_get:
  "counter_get (document_frequencies (map (\<lambda>d. Counter (tokenize uni (content d))) docs)) t
     = int (spec_df uni docs t)"
proof -
  have d: "\<forall>tc\<in>set (map (\<lambda>d. Counter (tokenize uni (content d))) docs). distinct (map fst tc)"
    by (simp add: distinct_Counter)
  have z: "counter_get [] t = 0" by (simp add: counter_get_def)
  show ?thesis
    unfolding document_frequencies_def df_fold_get [OF d] z
    by (simp add: filter_map o_def keys_Counter spec_df_def)
qed

lemma document_frequencies_keys:
  "t \<in> fst ` set (document_frequencies (map (\<lambda>d. Counter (tokenize uni (content d))) docs))
     \<longleftrightarrow> spec_in_idf uni docs t"
  unfolding document_frequencies_def df_fold_keys
  by (simp add: keys_Counter spec_in_idf_def)

lemma idf_value_spec:
  "idf_value (int (length docs)) (int (spec_df uni docs t)) = spec_idf uni docs t"
  by (simp add: idf_value_def spec_idf_def)

lemma fit_idf:
  "map_of (idf (fit uni self docs)) t =
     (if spec_in_idf uni docs t then Some (spec_idf uni docs t) else None)"
proof -
  let ?df = "document_frequencies (map (\<lambda>d. Counter (tokenize uni (content d))) docs)"
  have "idf (fit uni self docs) = map (\<lambda>(term, freq). (term, idf_value (int (length docs)) freq)) ?df"
    by (simp add: fit_def count_terms_eq Let_def)
  then have "map_of (idf (fit uni self docs)) t
      = map_option (idf_value (int (length docs))) (map_of ?df t)"
    by (simp add: map_of_map_value)
  also have "map_of ?df t = (if spec_in_idf uni docs t then Some (int (spec_df uni docs t)) else None)"
    by (simp add: map_of_counter [of ?df t] document_frequencies_keys document_frequencies_get)
  finally show ?thesis
    by (simp add: idf_value_spec)
qed

subsection \<open>The loops of search on a fitted index\<close>

lemma term_loop_closed:
  assumes "avgdl self \<noteq> 0"
    and "\<forall>t\<in>set ts. map_of (idf self) t \<noteq> None \<longrightarrow>
           real_of_int (counter_get tc t)
             + k1 self * (1 - b self + b self * real_of_int len / avgdl self) \<noteq> 0"
  shows "term_loop self len tc ts acc =
     Inr (acc + (\<Sum>t\<leftarrow>ts. case map_of (idf self) t of
                    None \<Rightarrow> 0
                  | Some v \<Rightarrow> v * real_of_int (counter_get tc t) * (k1 self + 1)
                      / (real_of_int (counter_get tc t)
                         + k1 self * (1 - b self + b self * real_of_int len / avgdl self))))"
  using assms(2)
proof (induction ts arbitrary: acc)
  case Nil
  show ?case by simp
next
  case (Cons t ts)
  then have ih: "\<And>acc. term_loop self len tc ts acc =
     Inr (acc + (\<Sum>t\<leftarrow>ts. case map_of (idf self) t of
                    None \<Rightarrow> 0
                  | Some v \<Rightarrow> v * real_of_int (counter_get tc t) * (k1 self + 1)
                      / (real_of_int (counter_get tc t)
                         + k1 self * (1 - b self + b self * real_of_int len / avgdl self))))"
    by simp
  show ?case
  proof (cases "map_of (idf self) t")
    case None
    then show ?thesis by (simp add: ih)
  next
    case (Some v)
    with Cons.prems have "real_of_int (counter_get tc t)
             + k1 self * (1 - b self + b self * real_of_int len / avgdl self) \<noteq> 0"
      by simp
    with Some assms(1) show ?thesis
      by (simp add: ih truediv_def Let_def add.assoc)
  qed
qed

lemma term_loop_fit:
  assumes "docs \<noteq> []" and "d \<in> set docs"
    and "\<forall>t\<in>set ts. spec_in_idf uni docs t \<longrightarrow> spec_denominator (k1 self) (b self) uni docs t d \<noteq> 0"
  shows "term_loop (fit uni self docs) (int (length (tokenize uni (content d))))
           (Counter (tokenize uni (content d))) ts 0
         = Inr (\<Sum>t\<leftarrow>filter (spec_in_idf uni docs) ts.
                  spec_idf uni docs t * real (spec_freq uni t d) * (k1 self + 1)
                  / spec_denominator (k1 self) (b self) uni docs t d)"
proof -
  let ?self = "fit uni self docs"
  have a: "avgdl ?self = spec_avgdl uni docs"
    using assms(1) by (simp add: fit_avgdl)
  have a0: "avgdl ?self \<noteq> 0"
    using spec_avgdl_ge_1 [OF assms(1), of uni] a by simp
  have den: "real_of_int (counter_get (Counter (tokenize uni (content d))) t)
      + k1 ?self * (1 - b ?self + b ?self * real_of_int (int (length (tokenize uni (content d)))) / avgdl ?self)
      = spec_denominator (k1 self) (b self) uni docs t d" for t
    by (simp add: a fit_fields counter_get_Counter spec_denominator_def spec_freq_def)
  have h: "\<forall>t\<in>set ts. map_of (idf ?self) t \<noteq> None \<longrightarrow>
      real_of_int (counter_get (Counter (tokenize uni (content d))) t)
      + k1 ?self * (1 - b ?self + b ?self * real_of_int (int (length (tokenize uni (content d)))) / avgdl ?self) \<noteq> 0"
    unfolding den using assms(3) by (simp add: fit_idf)
  have s: "(\<Sum>t\<leftarrow>ts. case map_of (idf ?self) t of
                    None \<Rightarrow> 0
                  | Some v \<Rightarrow> v * real_of_int (counter_get (Counter (tokenize uni (content d))) t) * (k1 ?self + 1)
                      / (real_of_int (counter_get (Counter (tokenize uni (content d))) t)
      + k1 ?self * (1 - b ?self + b ?self * real_of_int (int (length (tokenize uni (content d)))) / avgdl ?self)))
     = (\<Sum>t\<leftarrow>filter (spec_in_idf uni docs) ts.
                  spec_idf uni docs t * real (spec_freq uni t d) * (k1 self + 1)
                  / spec_denominator (k1 self) (b self) uni docs t d)"
    unfolding den
    by (induction ts) (simp_all add: fit_idf fit_fields counter_get_Counter spec_freq_def)
  show ?thesis
    unfolding term_loop_closed [OF a0 h] s by simp
qed

lemma doc_score_fit:
  assumes "i < length docs"
    and "\<forall>t\<in>set ts. spec_in_idf uni docs t \<longrightarrow>
           spec_denominator (k1 self) (b self) uni docs t (docs ! i) \<noteq> 0"
  shows "doc_score (fit uni self docs) ts i =
     Inr (\<Sum>t\<leftarrow>filter (spec_in_idf uni docs) ts.
            spec_idf uni docs t * real (spec_freq uni t (docs ! i)) * (k1 self + 1)
            / spec_denominator (k1 self) (b self) uni docs t (docs ! i))"
proof -
  have ne: "docs \<noteq> []" using assms(1) by auto
  have mem: "docs ! i \<in> set docs" using assms(1) by simp
  show ?thesis
    using assms(1) term_loop_fit [OF ne mem assms(2)]
    by (simp add: doc_score_def index_def fit_fields)
qed

lemma doc_loop_fit:
  assumes "spec_defined (k1 self) (b self) uni docs q"
    and "\<forall>i\<in>set js. i < length docs"
  shows "doc_loop (fit uni self docs) (tokenize uni q) js acc =
     Inr (acc @ filter (\<lambda>x. 0 < fst x)
                  (map (\<lambda>i. (spec_score (k1 self) (b self) uni docs q (docs ! i), docs ! i)) js))"
  using assms(2)
proof (induction js arbitrary: acc)
  case Nil
  show ?case by simp
next
  case (Cons i js)
  then have i: "i < length docs" by simp
  then have ne: "docs \<noteq> []" by auto
  have mem: "docs ! i \<in> set docs" using i by simp
  have dl: "index (doc_lengths (fit uni self docs)) i
      = Inr (int (length (tokenize uni (content (docs ! i)))))"
    using i by (simp add: index_def fit_fields)
  have tc: "index (map (\<lambda>d. Counter (tokenize uni (content d))) docs) i
      = Inr (Counter (tokenize uni (content (docs ! i))))"
    using i by (simp add: index_def)
  have dc: "index (documents (fit uni self docs)) i = Inr (docs ! i)"
    using i by (simp add: index_def fit_fields)
  have "\<forall>t\<in>set (tokenize uni q). spec_in_idf uni docs t \<longrightarrow>
      spec_denominator (k1 self) (b self) uni docs t (docs ! i) \<noteq> 0"
    using assms(1) mem unfolding spec_defined_def by blast
  from term_loop_fit [OF ne mem this]
  have tl: "doc_score (fit uni self docs) (tokenize uni q) i
      = Inr (spec_score (k1 self) (b self) uni docs q (docs ! i))"
    by (simp add: doc_score_def dl fit_fields(4) tc spec_score_def)
  have ih: "\<And>acc. doc_loop (fit uni self docs) (tokenize uni q) js acc =
     Inr (acc @ filter (\<lambda>x. 0 < fst x)
                  (map (\<lambda>i. (spec_score (k1 self) (b self) uni docs q (docs ! i), docs ! i)) js))"
    using Cons by simp
  show ?case
    by (simp add: tl dc ih)
qed

lemma search_fit:
  assumes "spec_defined (k1 self) (b self) uni docs q"
  shows "search uni (fit uni self docs) q k =
     Inr (slice_to (sort_desc (spec_candidates (k1 self) (b self) uni docs q)) k)"
proof -
  have "map (\<lambda>i. (spec_score (k1 self) (b self) uni docs q (docs ! i), docs ! i)) [0..<length docs]
      = map (\<lambda>d. (spec_score (k1 self) (b self) uni docs q d, d)) docs"
    by (rule nth_equalityI) simp_all
  then show ?thesis
    by (simp add: search_def fit_fields(2) doc_loop_fit [OF assms] spec_candidates_def)
qed

subsection \<open>Sorting and slicing\<close>

lemma sort_desc_sorted: "sorted_wrt (\<lambda>x y. fst y \<le> fst x) (sort_desc xs)"
proof -
  have "sorted (map (\<lambda>x. - fst x) (sort_desc xs))"
    by (simp add: sort_desc_def)
  then show ?thesis
    by (simp add: sorted_wrt_map)
qed

lemma mset_sort_desc: "mset (sort_desc xs) = mset xs"
  by (simp add: sort_desc_def)

lemma slice_to_nat: "slice_to xs (int n) = take n xs"
  by (simp add: slice_to_def)

lemma length_slice_to_nonneg: "0 \<le> k \<Longrightarrow> int (length (slice_to xs k)) \<le> k"
  by (simp add: slice_to_def)

lemma slice_to_all: "int (length xs) \<le> k \<Longrightarrow> slice_to xs k = xs"
  by (simp add: slice_to_def)

lemma slice_to_zero: "slice_to xs 0 = []"
  by (simp add: slice_to_def)

lemma slice_to_negative:
  "k < 0 \<Longrightarrow> slice_to xs k = take (length xs - nat (- k)) xs"
proof -
  assume "k < 0"
  then have "nat (int (length xs) + k) = length xs - nat (- k)"
    by linarith
  with \<open>k < 0\<close> show ?thesis
    by (simp add: slice_to_def)
qed

lemma length_sort_desc: "length (sort_desc xs) = length xs"
  by (simp add: sort_desc_def)

subsection \<open>The ranking of search\<close>

lemma spec_candidates_no_match:
  assumes "\<forall>t\<in>set (tokenize uni query_text). \<not> spec_in_idf uni docs t"
  shows "spec_candidates k1' b' uni docs query_text = []"
proof -
  have "filter (spec_in_idf uni docs) (tokenize uni query_text) = []"
    using assms by (simp add: filter_empty_conv)
  then show ?thesis
    by (simp add: spec_candidates_def spec_score_def)
qed

lemma spec_defined_no_match:
  assumes "\<forall>t\<in>set (tokenize uni query_text). \<not> spec_in_idf uni docs t"
  shows "spec_defined k1' b' uni docs query_text"
  using assms by (simp add: spec_defined_def)

lemma sort_desc_Nil: "sort_desc [] = []"
  by (simp add: sort_desc_def)

lemma slice_to_Nil: "slice_to [] k = []"
  by (simp add: slice_to_def)

subsection \<open>Where the formula is defined\<close>

lemma length_norm_pos:
  assumes "0 < k1'" and "0 \<le> b'" and "b' \<le> 1" and "docs \<noteq> []"
  shows "0 < k1' * (1 - b' + b' * real (length (tokenize uni s)) / spec_avgdl uni docs)"
proof -
  have a: "0 < spec_avgdl uni docs"
    using spec_avgdl_ge_1 [OF assms(4), of uni] by simp
  have l: "0 < real (length (tokenize uni s))"
    using tokenize_not_Nil [of uni s] by simp
  have q: "0 < real (length (tokenize uni s)) / spec_avgdl uni docs"
    using a l by simp
  have "0 < 1 - b' + b' * (real (length (tokenize uni s)) / spec_avgdl uni docs)"
  proof (cases "b' = 1")
    case True
    then show ?thesis using q by simp
  next
    case False
    then have "0 < 1 - b'" using assms(3) by simp
    moreover have "0 \<le> b' * (real (length (tokenize uni s)) / spec_avgdl uni docs)"
      using assms(2) q by (intro mult_nonneg_nonneg) simp_all
    ultimately show ?thesis by linarith
  qed
  then show ?thesis
    using assms(1) by simp
qed

lemma spec_denominator_pos:
  assumes "0 < k1'" and "0 \<le> b'" and "b' \<le> 1" and "docs \<noteq> []"
  shows "0 < spec_denominator k1' b' uni docs t d"
proof -
  have "0 \<le> real (spec_freq uni t d)" by simp
  then show ?thesis
    unfolding spec_denominator_def
    using length_norm_pos [OF assms, of uni "content d"] by linarith
qed

lemma spec_defined_standard:
  assumes "0 < k1'" and "0 \<le> b'" and "b' \<le> 1"
  shows "spec_defined k1' b' uni docs query_text"
  unfolding spec_defined_def
proof (intro ballI impI)
  fix d t assume "d \<in> set docs"
  then have "docs \<noteq> []" by auto
  from spec_denominator_pos [OF assms this, of uni t d]
  show "spec_denominator k1' b' uni docs t d \<noteq> 0" by simp
qed

lemma term_loop_raises:
  assumes "avgdl self \<noteq> 0"
    and "\<exists>t\<in>set ts. map_of (idf self) t \<noteq> None \<and>
           real_of_int (counter_get tc t)
             + k1 self * (1 - b self + b self * real_of_int len / avgdl self) = 0"
  shows "term_loop self len tc ts acc = Inl ZeroDivisionError"
  using assms(2)
proof (induction ts arbitrary: acc)
  case Nil
  then show ?case by simp
next
  case (Cons t ts)
  let ?den = "\<lambda>t. real_of_int (counter_get tc t)
             + k1 self * (1 - b self + b self * real_of_int len / avgdl self)"
  show ?case
  proof (cases "map_of (idf self) t")
    case None
    with Cons.prems have "\<exists>t\<in>set ts. map_of (idf self) t \<noteq> None \<and> ?den t = 0"
      by auto
    from Cons.IH [OF this] None show ?thesis by simp
  next
    case (Some v)
    show ?thesis
    proof (cases "?den t = 0")
      case True
      with Some assms(1) show ?thesis
        by (simp add: truediv_def Let_def)
    next
      case False
      with Cons.prems have "\<exists>t\<in>set ts. map_of (idf self) t \<noteq> None \<and> ?den t = 0"
        by auto
      from Cons.IH [OF this] Some False assms(1) show ?thesis
        by (simp add: truediv_def Let_def)
    qed
  qed
qed

lemma doc_score_fit_raises:
  assumes "i < length docs"
    and "\<exists>t\<in>set ts. spec_in_idf uni docs t \<and>
           spec_denominator (k1 self) (b self) uni docs t (docs ! i) = 0"
  shows "doc_score (fit uni self docs) ts i = Inl ZeroDivisionError"
proof -
  let ?self = "fit uni self docs"
  let ?d = "docs ! i"
  have ne: "docs \<noteq> []" using assms(1) by auto
  have a: "avgdl ?self = spec_avgdl uni docs"
    using ne by (simp add: fit_avgdl)
  have a0: "avgdl ?self \<noteq> 0"
    using spec_avgdl_ge_1 [OF ne, of uni] a by simp
  have den: "real_of_int (counter_get (Counter (tokenize uni (content ?d))) t)
      + k1 ?self * (1 - b ?self
          + b ?self * real_of_int (int (length (tokenize uni (content ?d)))) / avgdl ?self)
      = spec_denominator (k1 self) (b self) uni docs t ?d" for t
    by (simp add: a fit_fields counter_get_Counter spec_denominator_def spec_freq_def)
  have "\<exists>t\<in>set ts. map_of (idf ?self) t \<noteq> None \<and>
      real_of_int (counter_get (Counter (tokenize uni (content ?d))) t)
      + k1 ?self * (1 - b ?self
          + b ?self * real_of_int (int (length (tokenize uni (content ?d)))) / avgdl ?self) = 0"
    unfolding den using assms(2) by (auto simp: fit_idf)
  from term_loop_raises [OF a0 this] assms(1) show ?thesis
    by (simp add: doc_score_def index_def fit_fields)
qed

lemma doc_score_fit_cases:
  assumes "i < length docs"
  shows "doc_score (fit uni self docs) ts i = Inl ZeroDivisionError
     \<or> (\<exists>s. doc_score (fit uni self docs) ts i = Inr s)"
proof (cases "\<exists>t\<in>set ts. spec_in_idf uni docs t \<and>
           spec_denominator (k1 self) (b self) uni docs t (docs ! i) = 0")
  case True
  from doc_score_fit_raises [OF assms this] show ?thesis by simp
next
  case False
  then have "\<forall>t\<in>set ts. spec_in_idf uni docs t \<longrightarrow>
           spec_denominator (k1 self) (b self) uni docs t (docs ! i) \<noteq> 0"
    by blast
  from doc_score_fit [OF assms this] show ?thesis by simp
qed

lemma doc_loop_fit_raises:
  assumes "\<forall>i\<in>set js. i < length docs"
    and "\<exists>i\<in>set js. \<exists>t\<in>set ts. spec_in_idf uni docs t \<and>
           spec_denominator (k1 self) (b self) uni docs t (docs ! i) = 0"
  shows "doc_loop (fit uni self docs) ts js acc = Inl ZeroDivisionError"
  using assms
proof (induction js arbitrary: acc)
  case Nil
  then show ?case by simp
next
  case (Cons i js)
  then have i: "i < length docs" by simp
  have dc: "index (documents (fit uni self docs)) i = Inr (docs ! i)"
    using i by (simp add: index_def fit_fields)
  from doc_score_fit_cases [OF i, of uni self ts] show ?case
  proof
    assume "doc_score (fit uni self docs) ts i = Inl ZeroDivisionError"
    then show ?thesis by simp
  next
    assume "\<exists>s. doc_score (fit uni self docs) ts i = Inr s"
    then obtain s where s: "doc_score (fit uni self docs) ts i = Inr s" by blast
    have "\<not> (\<exists>t\<in>set ts. spec_in_idf uni docs t \<and>
           spec_denominator (k1 self) (b self) uni docs t (docs ! i) = 0)"
    proof
      assume "\<exists>t\<in>set ts. spec_in_idf uni docs t \<and>
           spec_denominator (k1 self) (b self) uni docs t (docs ! i) = 0"
      from doc_score_fit_raises [OF i this] s show False by simp
    qed
    with Cons.prems(2) have "\<exists>i\<in>set js. \<exists>t\<in>set ts. spec_in_idf uni docs t \<and>
           spec_denominator (k1 self) (b self) uni docs t (docs ! i) = 0"
      by auto
    with Cons have ih: "\<And>acc. doc_loop (fit uni self docs) ts js acc = Inl ZeroDivisionError"
      by simp
    show ?thesis
      by (simp add: s dc ih)
  qed
qed

text \<open>
  Where the formula is not defined, \<open>search\<close> of this model raises: a denominator that
  is zero in exact arithmetic is divided by. This needs parameters outside the usual
  range, such as \<open>k1 = 0\<close> with a document that lacks a query term of the corpus.
\<close>

lemma search_fit_undefined:
  assumes "\<not> spec_defined (k1 self) (b self) uni docs query_text"
  shows "search uni (fit uni self docs) query_text top_k = Inl ZeroDivisionError"
proof -
  from assms obtain d t where d: "d \<in> set docs" and t: "t \<in> set (tokenize uni query_text)"
    and z: "spec_in_idf uni docs t" "spec_denominator (k1 self) (b self) uni docs t d = 0"
    unfolding spec_defined_def by blast
  from d obtain i where i: "i < length docs" "docs ! i = d"
    by (auto simp: in_set_conv_nth)
  have "\<exists>i\<in>set [0..<length docs]. \<exists>t\<in>set (tokenize uni query_text). spec_in_idf uni docs t \<and>
           spec_denominator (k1 self) (b self) uni docs t (docs ! i) = 0"
    using i t z by auto
  from doc_loop_fit_raises [OF _ this] show ?thesis
    by (simp add: search_def fit_fields)
qed

text \<open>
  C1, as amended. For an index built by \<open>fit\<close> (with any parameters \<open>k1\<close>, \<open>b\<close>) and
  a query such that no denominator \<open>freq + k1 * (1 - b + b * len / avgdl)\<close> of a query
  term of the IDF table and a document is zero, which holds whenever \<open>k1 > 0\<close> and
  \<open>0 \<le> b \<le> 1\<close> and so for the defaults: \<open>search\<close> tokenizes the query with the same
  tokenizer, gives every document the sum, over the query terms that the IDF table
  holds, of \<open>IDF t * freq * (k1 + 1) / (freq + k1 * (1 - b + b * len / avgdl))\<close>, keeps
  the documents of strictly positive score, sorts them by descending score (a
  permutation in descending order) and returns the slice \<^verbatim>\<open>[:top_k]\<close> of them, which is
  the first \<open>n\<close> of them for \<open>top_k = n \<ge> 0\<close>. On an empty corpus, and when no query term
  is a corpus term, it returns the empty list. Scores are the exact values of the formula.
\<close>

theorem search_bm25:
  "(spec_defined (k1 self) (b self) uni docs query_text \<longrightarrow>
      search uni (fit uni self docs) query_text top_k
        = Inr (slice_to (sort_desc (spec_candidates (k1 self) (b self) uni docs query_text)) top_k)
      \<and> search uni (fit uni self docs) query_text (int n)
        = Inr (take n (sort_desc (spec_candidates (k1 self) (b self) uni docs query_text)))
      \<and> sorted_wrt (\<lambda>x y. fst y \<le> fst x)
           (sort_desc (spec_candidates (k1 self) (b self) uni docs query_text))
      \<and> mset (sort_desc (spec_candidates (k1 self) (b self) uni docs query_text))
          = mset (spec_candidates (k1 self) (b self) uni docs query_text))
   \<and> (0 < k1 self \<and> 0 \<le> b self \<and> b self \<le> 1 \<longrightarrow>
        spec_defined (k1 self) (b self) uni docs query_text)
   \<and> search uni (fit uni self []) query_text top_k = Inr []
   \<and> ((\<forall>t\<in>set (tokenize uni query_text). \<not> spec_in_idf uni docs t) \<longrightarrow>
        search uni (fit uni self docs) query_text top_k = Inr [])"
proof (intro conjI impI)
  assume "spec_defined (k1 self) (b self) uni docs query_text"
  then show "search uni (fit uni self docs) query_text top_k
        = Inr (slice_to (sort_desc (spec_candidates (k1 self) (b self) uni docs query_text)) top_k)"
    by (rule search_fit)
next
  assume "spec_defined (k1 self) (b self) uni docs query_text"
  then show "search uni (fit uni self docs) query_text (int n)
        = Inr (take n (sort_desc (spec_candidates (k1 self) (b self) uni docs query_text)))"
    by (simp add: search_fit slice_to_nat)
next
  show "sorted_wrt (\<lambda>x y. fst y \<le> fst x)
           (sort_desc (spec_candidates (k1 self) (b self) uni docs query_text))"
    by (rule sort_desc_sorted)
next
  show "mset (sort_desc (spec_candidates (k1 self) (b self) uni docs query_text))
          = mset (spec_candidates (k1 self) (b self) uni docs query_text)"
    by (rule mset_sort_desc)
next
  assume "0 < k1 self \<and> 0 \<le> b self \<and> b self \<le> 1"
  then show "spec_defined (k1 self) (b self) uni docs query_text"
    by (simp add: spec_defined_standard)
next
  have "spec_defined (k1 self) (b self) uni [] query_text"
    by (simp add: spec_defined_def)
  then show "search uni (fit uni self []) query_text top_k = Inr []"
    by (simp add: search_fit spec_candidates_def sort_desc_Nil slice_to_Nil)
next
  assume nm: "\<forall>t\<in>set (tokenize uni query_text). \<not> spec_in_idf uni docs t"
  show "search uni (fit uni self docs) query_text top_k = Inr []"
    by (simp add: search_fit [OF spec_defined_no_match [OF nm]]
        spec_candidates_no_match [OF nm] sort_desc_Nil slice_to_Nil)
qed

subsection \<open>The example corpus\<close>

lemma tokenize_abab: "tokenize bot [97, 98, 97, 98] = [[97, 98], [98, 97], [97, 98]]"
  by (simp add: tokenize_def re_sub_def word_char_def cjk_def slice_def upt_rec)

lemma tokenize_abxy: "tokenize bot [97, 98, 120, 121] = [[97, 98], [98, 120], [120, 121]]"
  by (simp add: tokenize_def re_sub_def word_char_def cjk_def slice_def upt_rec)

lemma tokenize_ab: "tokenize bot [97, 98] = [[97, 98]]"
  by (simp add: tokenize_def re_sub_def word_char_def cjk_def slice_def upt_rec)

lemma tokenize_zz: "tokenize bot [122, 122] = [[122, 122]]"
  by (simp add: tokenize_def re_sub_def word_char_def cjk_def slice_def upt_rec)

lemmas ex_tokens = tokenize_abab tokenize_abxy tokenize_ab tokenize_zz

lemma ex_in_idf: "spec_in_idf bot [ex_doc1, ex_doc2] [97, 98]"
  by (simp add: spec_in_idf_def ex_doc1_def tokenize_abab)

lemma ex_not_in_idf: "\<not> spec_in_idf bot [ex_doc1, ex_doc2] [122, 122]"
  by (simp add: spec_in_idf_def ex_doc1_def ex_doc2_def ex_tokens)

lemma ex_avgdl: "spec_avgdl bot [ex_doc1, ex_doc2] = 3"
  by (simp add: spec_avgdl_def ex_doc1_def ex_doc2_def ex_tokens)

lemma ex_idf: "spec_idf bot [ex_doc1, ex_doc2] [97, 98] = ln (6 / 5)"
  by (simp add: spec_idf_def spec_df_def ex_doc1_def ex_doc2_def ex_tokens)

lemma ex_den1: "spec_denominator (3 / 2) (3 / 4) bot [ex_doc1, ex_doc2] [97, 98] ex_doc1 = 7 / 2"
  by (simp add: spec_denominator_def ex_avgdl spec_freq_def) (simp add: ex_doc1_def ex_tokens)

lemma ex_den2: "spec_denominator (3 / 2) (3 / 4) bot [ex_doc1, ex_doc2] [97, 98] ex_doc2 = 5 / 2"
  by (simp add: spec_denominator_def ex_avgdl spec_freq_def) (simp add: ex_doc2_def ex_tokens)

lemma ex_defined: "spec_defined (3 / 2) (3 / 4) bot [ex_doc1, ex_doc2] [97, 98]"
  by (simp add: spec_defined_def tokenize_ab ex_den1 ex_den2)

lemma ex_score1: "spec_score (3 / 2) (3 / 4) bot [ex_doc1, ex_doc2] [97, 98] ex_doc1 = ln (6 / 5) * (10 / 7)"
  by (simp add: spec_score_def tokenize_ab ex_in_idf ex_idf ex_den1 spec_freq_def) (simp add: ex_doc1_def ex_tokens)

lemma ex_score2: "spec_score (3 / 2) (3 / 4) bot [ex_doc1, ex_doc2] [97, 98] ex_doc2 = ln (6 / 5)"
  by (simp add: spec_score_def tokenize_ab ex_in_idf ex_idf ex_den2 spec_freq_def) (simp add: ex_doc2_def ex_tokens)

lemma ln_6_5_pos: "0 < ln (6 / 5 :: real)"
  by simp

lemma ex_candidates:
  "spec_candidates (3 / 2) (3 / 4) bot [ex_doc1, ex_doc2] [97, 98]
     = [(ln (6 / 5) * (10 / 7), ex_doc1), (ln (6 / 5), ex_doc2)]"
  by (simp add: spec_candidates_def ex_score1 ex_score2)

lemma ex_sorted:
  "sort_desc [(ln (6 / 5) * (10 / 7), ex_doc1), (ln (6 / 5 :: real), ex_doc2)]
     = [(ln (6 / 5) * (10 / 7), ex_doc1), (ln (6 / 5), ex_doc2)]"
proof -
  have "ln (6 / 5 :: real) \<le> ln (6 / 5) * (10 / 7)"
    using ln_6_5_pos by simp
  then show ?thesis
    by (simp add: sort_desc_def)
qed

theorem search_bm25_witness:
  "spec_defined (3 / 2) (3 / 4) bot [ex_doc1, ex_doc2] [97, 98]
   \<and> search bot (fit bot (SimpleBM25 (3 / 2) (3 / 4)) [ex_doc1, ex_doc2]) [97, 98] 3
       = Inr [(ln (6 / 5) * (10 / 7), ex_doc1), (ln (6 / 5), ex_doc2)]
   \<and> search bot (fit bot (SimpleBM25 (3 / 2) (3 / 4)) [ex_doc1, ex_doc2]) [97, 98] (int 1)
       = Inr [(ln (6 / 5) * (10 / 7), ex_doc1)]
   \<and> (0 :: real) < 3 / 2 \<and> (0 :: real) \<le> 3 / 4 \<and> (3 / 4 :: real) \<le> 1
   \<and> \<not> spec_in_idf bot [ex_doc1, ex_doc2] [122, 122]
   \<and> search bot (fit bot (SimpleBM25 (3 / 2) (3 / 4)) [ex_doc1, ex_doc2]) [122, 122] 3 = Inr []"
proof -
  have p: "k1 (SimpleBM25 (3 / 2) (3 / 4)) = 3 / 2" "b (SimpleBM25 (3 / 2) (3 / 4)) = 3 / 4"
    by (simp_all add: SimpleBM25_def)
  have r: "0 < k1 (SimpleBM25 (3 / 2) (3 / 4)) \<and> 0 \<le> b (SimpleBM25 (3 / 2) (3 / 4))
      \<and> b (SimpleBM25 (3 / 2) (3 / 4)) \<le> 1"
    by (simp add: p)
  have nm: "\<forall>t\<in>set (tokenize bot [122, 122]). \<not> spec_in_idf bot [ex_doc1, ex_doc2] t"
    by (simp add: tokenize_zz ex_not_in_idf)
  note a = search_bm25 [where self = "SimpleBM25 (3 / 2) (3 / 4)" and uni = bot
        and docs = "[ex_doc1, ex_doc2]" and query_text = "[97, 98]" and n = 1 and top_k = 3]
  note d0 = a [THEN conjunct2, THEN conjunct1, THEN mp, OF r]
  note d = d0 [unfolded p]
  note s = a [THEN conjunct1, THEN mp, OF d0, unfolded p ex_candidates ex_sorted]
  note z = search_bm25 [where self = "SimpleBM25 (3 / 2) (3 / 4)" and uni = bot
        and docs = "[ex_doc1, ex_doc2]" and query_text = "[122, 122]" and n = 1 and top_k = 3,
        THEN conjunct2, THEN conjunct2, THEN conjunct2, THEN mp, OF nm]
  have s3: "slice_to [(ln (6 / 5) * (10 / 7), ex_doc1), (ln (6 / 5 :: real), ex_doc2)] 3
      = [(ln (6 / 5) * (10 / 7), ex_doc1), (ln (6 / 5), ex_doc2)]"
    by (simp add: slice_to_def)
  from d s [THEN conjunct1, unfolded s3] s [THEN conjunct2, THEN conjunct1] z ex_not_in_idf
  show ?thesis by simp
qed

text \<open>
  The claim as stated fails where a denominator is zero: the constructor takes any
  \<open>k1\<close>, and with \<open>k1 = 0\<close> the denominator is the frequency alone. On the corpus
  \<^verbatim>\<open>abab\<close>, \<^verbatim>\<open>abxy\<close> the term \<^verbatim>\<open>ba\<close> of the query \<^verbatim>\<open>ba\<close> is in the IDF table and does
  not occur in the second document: the division raises, and \<open>search\<close> returns nothing.
\<close>

lemma tokenize_ba: "tokenize bot [98, 97] = [[98, 97]]"
  by (simp add: tokenize_def re_sub_def word_char_def cjk_def slice_def upt_rec)

lemma ex_undefined_zero_k1: "\<not> spec_defined 0 (3 / 4) bot [ex_doc1, ex_doc2] [98, 97]"
proof -
  have i: "spec_in_idf bot [ex_doc1, ex_doc2] [98, 97]"
    by (simp add: spec_in_idf_def ex_doc1_def tokenize_abab)
  have z: "spec_denominator 0 (3 / 4) bot [ex_doc1, ex_doc2] [98, 97] ex_doc2 = 0"
    by (simp add: spec_denominator_def spec_freq_def ex_doc2_def tokenize_abxy)
  show ?thesis
    using i z by (simp add: spec_defined_def tokenize_ba)
qed

theorem search_zero_k1_counterexample:
  "search bot (fit bot (SimpleBM25 0 (3 / 4)) [ex_doc1, ex_doc2]) [98, 97] 3
     = Inl ZeroDivisionError"
proof -
  have p: "k1 (SimpleBM25 0 (3 / 4)) = 0" "b (SimpleBM25 0 (3 / 4)) = 3 / 4"
    by (simp_all add: SimpleBM25_def)
  show ?thesis
    by (rule search_fit_undefined) (simp add: p ex_undefined_zero_k1)
qed

subsection \<open>The IDF table\<close>

lemma distinct_document_frequencies:
  "distinct (map fst (document_frequencies tcs))"
proof -
  have "distinct (map fst df0) \<Longrightarrow>
      distinct (map fst (fold (\<lambda>tc df. counter_update df (map fst tc)) tcs df0))" for df0
    by (induction tcs arbitrary: df0) (simp_all add: distinct_counter_update)
  then show ?thesis
    by (simp add: document_frequencies_def)
qed

lemma distinct_fit_idf: "distinct (map fst (idf (fit uni self docs)))"
proof -
  have h: "map fst (map (\<lambda>(term, freq). (term, f freq)) df) = map fst df"
    for f :: "int \<Rightarrow> real" and df :: counter
    by (induction df) auto
  have "idf (fit uni self docs) = map (\<lambda>(term, freq). (term, idf_value (int (length docs)) freq))
      (document_frequencies (map (\<lambda>d. Counter (tokenize uni (content d))) docs))"
    by (simp add: fit_def count_terms_eq Let_def)
  then show ?thesis
    by (simp only: h distinct_document_frequencies)
qed

lemma spec_df_le: "spec_df uni docs t \<le> length docs"
  by (simp add: spec_df_def)

lemma spec_df_pos: "spec_in_idf uni docs t \<Longrightarrow> 1 \<le> spec_df uni docs t"
proof -
  assume "spec_in_idf uni docs t"
  then have "filter (\<lambda>d. t \<in> set (tokenize uni (content d))) docs \<noteq> []"
    by (simp add: spec_in_idf_def filter_empty_conv)
  then show ?thesis
    unfolding spec_df_def by (cases "filter (\<lambda>d. t \<in> set (tokenize uni (content d))) docs") simp_all
qed

lemma idf_argument_ge_1:
  "1 \<le> (real (length docs) - real (spec_df uni docs t) + 0.5) / (real (spec_df uni docs t) + 0.5) + 1"
proof -
  have "real (spec_df uni docs t) \<le> real (length docs)"
    using spec_df_le [of uni docs t] by simp
  then have "0 \<le> (real (length docs) - real (spec_df uni docs t) + 0.5) / (real (spec_df uni docs t) + 0.5)"
    by (intro divide_nonneg_pos) auto
  then show ?thesis by simp
qed

lemma spec_idf_nonneg: "0 \<le> spec_idf uni docs t"
  unfolding spec_idf_def using idf_argument_ge_1 [of docs uni t] by (intro ln_ge_zero)

text \<open>
  C5. Every entry \<open>(t, v)\<close> of the IDF table of a fitted index has
  \<open>v = ln ((N - df + 0.5) / (df + 0.5) + 1)\<close>, where \<open>N\<close> is the number of documents and
  \<open>df\<close> the number of documents that contain \<open>t\<close>; \<open>1 \<le> df \<le> N\<close>, the argument of the
  logarithm is at least 1, and \<open>v \<ge> 0\<close>. The table has one entry for each term, and
  its terms are exactly the terms of the corpus.
\<close>

theorem fit_idf_formula:
  "(\<forall>(t, v)\<in>set (idf (fit uni self docs)).
      v = ln ((real (length docs) - real (spec_df uni docs t) + 0.5)
              / (real (spec_df uni docs t) + 0.5) + 1)
      \<and> 1 \<le> spec_df uni docs t \<and> spec_df uni docs t \<le> length docs
      \<and> 1 \<le> (real (length docs) - real (spec_df uni docs t) + 0.5)
              / (real (spec_df uni docs t) + 0.5) + 1
      \<and> 0 \<le> v)
   \<and> distinct (map fst (idf (fit uni self docs)))
   \<and> (\<forall>t. map_of (idf (fit uni self docs)) t =
          (if \<exists>d\<in>set docs. t \<in> set (tokenize uni (content d))
           then Some (ln ((real (length docs) - real (spec_df uni docs t) + 0.5)
                          / (real (spec_df uni docs t) + 0.5) + 1))
           else None))"
proof (intro conjI ballI allI)
  fix x assume x: "x \<in> set (idf (fit uni self docs))"
  obtain t v where tv: "x = (t, v)" by (cases x)
  from x tv have "map_of (idf (fit uni self docs)) t = Some v"
    using distinct_fit_idf [of uni self docs] by simp
  then have i: "spec_in_idf uni docs t" and v: "v = spec_idf uni docs t"
    by (simp_all add: fit_idf split: if_splits)
  show "case x of (t, v) \<Rightarrow>
      v = ln ((real (length docs) - real (spec_df uni docs t) + 0.5)
              / (real (spec_df uni docs t) + 0.5) + 1)
      \<and> 1 \<le> spec_df uni docs t \<and> spec_df uni docs t \<le> length docs
      \<and> 1 \<le> (real (length docs) - real (spec_df uni docs t) + 0.5)
              / (real (spec_df uni docs t) + 0.5) + 1
      \<and> 0 \<le> v"
    using spec_df_pos [OF i] spec_df_le [of uni docs t] idf_argument_ge_1 [of docs uni t]
      spec_idf_nonneg [of uni docs t]
    unfolding tv v by (simp add: spec_idf_def)
next
  show "distinct (map fst (idf (fit uni self docs)))"
    by (rule distinct_fit_idf)
next
  fix t
  show "map_of (idf (fit uni self docs)) t =
          (if \<exists>d\<in>set docs. t \<in> set (tokenize uni (content d))
           then Some (ln ((real (length docs) - real (spec_df uni docs t) + 0.5)
                          / (real (spec_df uni docs t) + 0.5) + 1))
           else None)"
    unfolding fit_idf spec_in_idf_def spec_idf_def ..
qed

lemma ex_df: "spec_df bot [ex_doc1, ex_doc2] [97, 98] = 2"
  by (simp add: spec_df_def ex_doc1_def ex_doc2_def ex_tokens)

theorem fit_idf_formula_witness:
  "([97, 98], ln (6 / 5)) \<in> set (idf (fit bot (SimpleBM25 (3 / 2) (3 / 4)) [ex_doc1, ex_doc2]))
   \<and> spec_df bot [ex_doc1, ex_doc2] [97, 98] = 2
   \<and> ln (6 / 5 :: real) = ln ((real 2 - real 2 + 0.5) / (real 2 + 0.5) + 1)
   \<and> (0 :: real) \<le> ln (6 / 5)"
proof -
  have "map_of (idf (fit bot (SimpleBM25 (3 / 2) (3 / 4)) [ex_doc1, ex_doc2])) [97, 98]
      = Some (ln (6 / 5))"
    by (simp add: fit_idf ex_in_idf ex_idf)
  then have m: "([97, 98], ln (6 / 5)) \<in> set (idf (fit bot (SimpleBM25 (3 / 2) (3 / 4)) [ex_doc1, ex_doc2]))"
    by (rule map_of_SomeD)
  have l: "length [ex_doc1, ex_doc2] = 2"
    by simp
  note f = fit_idf_formula [of bot "SimpleBM25 (3 / 2) (3 / 4)" "[ex_doc1, ex_doc2]",
      THEN conjunct1, THEN bspec, OF m, unfolded prod.case ex_df l]
  have e: "ln (6 / 5 :: real) = ln ((real 2 - real 2 + 0.5) / (real 2 + 0.5) + 1)"
    by (rule f [THEN conjunct1])
  have z: "(0 :: real) \<le> ln (6 / 5)"
    by (rule f [THEN conjunct2, THEN conjunct2, THEN conjunct2, THEN conjunct2])
  from m ex_df e z show ?thesis
    by (intro conjI)
qed

subsection \<open>Lengths and the average length\<close>

lemma tokenize_stripped_empty: "re_sub uni s = [] \<Longrightarrow> tokenize uni s = [[]]"
  by (simp add: tokenize_def)

lemma truediv_nonzero: "y \<noteq> 0 \<Longrightarrow> truediv x y = Inr (x / y)"
  by (simp add: truediv_def)

text \<open>
  C10. The tokenizer never returns the empty list; when every character is stripped
  (the empty string, a string of punctuation) it returns the one-element list holding
  the empty string. Hence after \<open>fit\<close> on a non-empty document list every document
  length is at least 1 and \<open>avgdl\<close> is at least 1, and the division by \<open>avgdl\<close> in
  \<open>search\<close> does not raise; after \<open>fit\<close> on the empty list \<open>search\<close> divides nothing
  and returns the empty list.
\<close>

theorem tokenize_nonempty_avgdl:
  "tokenize uni s \<noteq> []
   \<and> tokenize uni [] = [[]]
   \<and> (re_sub uni s = [] \<longrightarrow> tokenize uni s = [[]])
   \<and> (docs \<noteq> [] \<longrightarrow>
        (\<forall>l\<in>set (doc_lengths (fit uni self docs)). 1 \<le> l)
        \<and> 1 \<le> avgdl (fit uni self docs)
        \<and> (\<forall>x. truediv x (avgdl (fit uni self docs)) = Inr (x / avgdl (fit uni self docs))))
   \<and> (docs = [] \<longrightarrow> search uni (fit uni self docs) query_text top_k = Inr [])"
proof (intro conjI impI allI ballI)
  show "tokenize uni s \<noteq> []" by (rule tokenize_not_Nil)
next
  show "tokenize uni [] = [[]]" by (simp add: tokenize_def re_sub_def)
next
  assume "re_sub uni s = []"
  then show "tokenize uni s = [[]]" by (rule tokenize_stripped_empty)
next
  fix l assume "l \<in> set (doc_lengths (fit uni self docs))"
  then have "l \<in> (\<lambda>d. int (length (tokenize uni (content d)))) ` set docs"
    by (simp add: fit_fields)
  then obtain d :: document where "l = int (length (tokenize uni (content d)))"
    by blast
  then show "1 \<le> l"
    using length_tokenize_pos [of uni "content d"] by simp
next
  assume "docs \<noteq> []"
  then show "1 \<le> avgdl (fit uni self docs)"
    by (simp add: fit_avgdl spec_avgdl_ge_1)
next
  fix x assume ne: "docs \<noteq> []"
  have "avgdl (fit uni self docs) \<noteq> 0"
    using spec_avgdl_ge_1 [OF ne, of uni] ne by (simp add: fit_avgdl)
  then show "truediv x (avgdl (fit uni self docs)) = Inr (x / avgdl (fit uni self docs))"
    by (rule truediv_nonzero)
next
  assume "docs = []"
  moreover have "spec_defined (k1 self) (b self) uni [] query_text"
    by (simp add: spec_defined_def)
  ultimately show "search uni (fit uni self docs) query_text top_k = Inr []"
    by (simp add: search_fit spec_candidates_def sort_desc_Nil slice_to_Nil)
qed

lemma re_sub_punctuation: "re_sub bot [33, 63] = []"
  by (simp add: re_sub_def word_char_def cjk_def)

lemma ex_doc_lengths:
  "doc_lengths (fit bot (SimpleBM25 (3 / 2) (3 / 4)) [ex_doc1, ex_doc2]) = [3, 3]"
  by (simp add: fit_fields ex_doc1_def ex_doc2_def ex_tokens)

theorem tokenize_nonempty_avgdl_witness:
  "re_sub bot [33, 63] = [] \<and> tokenize bot [33, 63] = [[]]
   \<and> [ex_doc1, ex_doc2] \<noteq> []
   \<and> doc_lengths (fit bot (SimpleBM25 (3 / 2) (3 / 4)) [ex_doc1, ex_doc2]) = [3, 3]
   \<and> 1 \<le> avgdl (fit bot (SimpleBM25 (3 / 2) (3 / 4)) [ex_doc1, ex_doc2])
   \<and> truediv (9 / 4) (avgdl (fit bot (SimpleBM25 (3 / 2) (3 / 4)) [ex_doc1, ex_doc2]))
       = Inr (9 / 4 / avgdl (fit bot (SimpleBM25 (3 / 2) (3 / 4)) [ex_doc1, ex_doc2]))
   \<and> search bot (fit bot (SimpleBM25 (3 / 2) (3 / 4)) []) [97, 98] 3 = Inr []"
  using tokenize_nonempty_avgdl [where uni = bot and s = "[33, 63]" and docs = "[ex_doc1, ex_doc2]"
      and self = "SimpleBM25 (3 / 2) (3 / 4)"]
    tokenize_nonempty_avgdl [where uni = bot and docs = "[]" and query_text = "[97, 98]" and top_k = 3
      and self = "SimpleBM25 (3 / 2) (3 / 4)"]
    re_sub_punctuation ex_doc_lengths
  by simp

subsection \<open>The cut at top_k\<close>

text \<open>
  C8, as amended. For an index built by \<open>fit\<close>, a query on which the score formula is
  defined, and an integer \<open>k\<close>: \<open>search\<close> returns a list; for \<open>k \<ge> 0\<close> it has at most
  \<open>k\<close> entries; when there are at most \<open>k\<close> candidates of positive score it holds all
  of them; for \<open>k = 0\<close> it is empty; for \<open>k < 0\<close> it is the ranked candidate list
  without its last \<open>-k\<close> entries (Python's \<^verbatim>\<open>scores[:top_k]\<close>).
\<close>

theorem search_top_k:
  assumes "spec_defined (k1 self) (b self) uni docs query_text"
  shows "\<exists>rs. search uni (fit uni self docs) query_text k = Inr rs
     \<and> (0 \<le> k \<longrightarrow> int (length rs) \<le> k)
     \<and> (int (length (spec_candidates (k1 self) (b self) uni docs query_text)) \<le> k \<longrightarrow>
          mset rs = mset (spec_candidates (k1 self) (b self) uni docs query_text))
     \<and> (k = 0 \<longrightarrow> rs = [])
     \<and> (k < 0 \<longrightarrow>
          rs = take (length (spec_candidates (k1 self) (b self) uni docs query_text) - nat (- k))
                 (sort_desc (spec_candidates (k1 self) (b self) uni docs query_text)))"
proof -
  let ?cs = "spec_candidates (k1 self) (b self) uni docs query_text"
  let ?rs = "slice_to (sort_desc ?cs) k"
  have "search uni (fit uni self docs) query_text k = Inr ?rs"
    by (rule search_fit [OF assms])
  moreover have "0 \<le> k \<longrightarrow> int (length ?rs) \<le> k"
    by (simp add: length_slice_to_nonneg)
  moreover have "int (length ?cs) \<le> k \<longrightarrow> mset ?rs = mset ?cs"
    by (simp add: slice_to_all length_sort_desc mset_sort_desc)
  moreover have "k = 0 \<longrightarrow> ?rs = []"
    by (simp add: slice_to_zero)
  moreover have "k < 0 \<longrightarrow> ?rs = take (length ?cs - nat (- k)) (sort_desc ?cs)"
    by (simp add: slice_to_negative length_sort_desc)
  ultimately show ?thesis
    by blast
qed

lemma ex_params:
  "k1 (SimpleBM25 (3 / 2) (3 / 4)) = 3 / 2" "b (SimpleBM25 (3 / 2) (3 / 4)) = 3 / 4"
  by (simp_all add: SimpleBM25_def)

lemma ex_search:
  "search bot (fit bot (SimpleBM25 (3 / 2) (3 / 4)) [ex_doc1, ex_doc2]) [97, 98] k
     = Inr (slice_to [(ln (6 / 5) * (10 / 7), ex_doc1), (ln (6 / 5), ex_doc2)] k)"
proof -
  have "spec_defined (k1 (SimpleBM25 (3 / 2) (3 / 4))) (b (SimpleBM25 (3 / 2) (3 / 4))) bot
      [ex_doc1, ex_doc2] [97, 98]"
    unfolding ex_params by (rule ex_defined)
  from search_fit [OF this] show ?thesis
    unfolding ex_params ex_candidates ex_sorted .
qed

theorem search_top_k_witness:
  "spec_defined (3 / 2) (3 / 4) bot [ex_doc1, ex_doc2] [97, 98]
   \<and> int (length (spec_candidates (3 / 2) (3 / 4) bot [ex_doc1, ex_doc2] [97, 98])) \<le> 3
   \<and> (\<exists>rs. search bot (fit bot (SimpleBM25 (3 / 2) (3 / 4)) [ex_doc1, ex_doc2]) [97, 98] 3 = Inr rs
         \<and> int (length rs) \<le> 3
         \<and> mset rs = mset (spec_candidates (3 / 2) (3 / 4) bot [ex_doc1, ex_doc2] [97, 98]))
   \<and> (\<exists>rs. search bot (fit bot (SimpleBM25 (3 / 2) (3 / 4)) [ex_doc1, ex_doc2]) [97, 98] 0 = Inr rs
         \<and> rs = [])
   \<and> (\<exists>rs. search bot (fit bot (SimpleBM25 (3 / 2) (3 / 4)) [ex_doc1, ex_doc2]) [97, 98] (- 1)
           = Inr rs
         \<and> rs = take (length (spec_candidates (3 / 2) (3 / 4) bot [ex_doc1, ex_doc2] [97, 98])
                        - nat (- (- 1)))
                  (sort_desc (spec_candidates (3 / 2) (3 / 4) bot [ex_doc1, ex_doc2] [97, 98])))"
proof -
  have d: "spec_defined (k1 (SimpleBM25 (3 / 2) (3 / 4))) (b (SimpleBM25 (3 / 2) (3 / 4))) bot
      [ex_doc1, ex_doc2] [97, 98]"
    unfolding ex_params by (rule ex_defined)
  have l: "int (length (spec_candidates (3 / 2) (3 / 4) bot [ex_doc1, ex_doc2] [97, 98])) \<le> 3"
    by (simp add: ex_candidates)
  from search_top_k [OF d, of 3] l
  have a: "\<exists>rs. search bot (fit bot (SimpleBM25 (3 / 2) (3 / 4)) [ex_doc1, ex_doc2]) [97, 98] 3 = Inr rs
         \<and> int (length rs) \<le> 3
         \<and> mset rs = mset (spec_candidates (3 / 2) (3 / 4) bot [ex_doc1, ex_doc2] [97, 98])"
    unfolding ex_params by auto
  from search_top_k [OF d, of 0]
  have z: "\<exists>rs. search bot (fit bot (SimpleBM25 (3 / 2) (3 / 4)) [ex_doc1, ex_doc2]) [97, 98] 0 = Inr rs
         \<and> rs = []"
    by auto
  from search_top_k [OF d, of "- 1"]
  have n: "\<exists>rs. search bot (fit bot (SimpleBM25 (3 / 2) (3 / 4)) [ex_doc1, ex_doc2]) [97, 98] (- 1)
           = Inr rs
         \<and> rs = take (length (spec_candidates (3 / 2) (3 / 4) bot [ex_doc1, ex_doc2] [97, 98])
                        - nat (- (- 1)))
                  (sort_desc (spec_candidates (3 / 2) (3 / 4) bot [ex_doc1, ex_doc2] [97, 98]))"
    unfolding ex_params by auto
  from ex_defined l a z n show ?thesis
    by (intro conjI)
qed

theorem search_negative_top_k_counterexample:
  "search bot (fit bot (SimpleBM25 (3 / 2) (3 / 4)) [ex_doc1, ex_doc2]) [97, 98] (- 1)
     = Inr [(ln (6 / 5) * (10 / 7), ex_doc1)]
   \<and> search bot (fit bot (SimpleBM25 (3 / 2) (3 / 4)) [ex_doc1, ex_doc2]) [97, 98] (- 1)
       \<noteq> Inr []"
  by (simp add: ex_search slice_to_def)

subsection \<open>Monotonicity in the term frequency\<close>











subsection \<open>Persistence\<close>

lemma ebind_Inr: "ebind (Inr x) f = f x"
  by (simp add: ebind_def)

lemma ebind_Inl: "ebind (Inl e) f = Inl e"
  by (simp add: ebind_def)

lemma each_map:
  assumes "\<And>x. x \<in> set xs \<Longrightarrow> f (g x) = Inr x"
  shows "each f (map g xs) = Inr xs"
  using assms by (induction xs) (simp_all add: ebind_Inr)

lemma each_value_map:
  assumes "\<And>v. f (g v) = Inr v"
  shows "each_value f (map (\<lambda>kv. (fst kv, g (snd kv))) xs) = Inr xs"
  unfolding each_value_def by (rule each_map) (simp add: assms ebind_Inr)

lemma as_document_json:
  fixes d :: document
  shows "as_document (document_json d) = Inr d"
  by (simp add: as_document_def document_json_def getitem_def ustr_def as_str_def ebind_Inr)

lemma getitem_index_json:
  "getitem (index_json X tc) (ustr ''k1'') = Inr (JFloat (k1 X))"
  "getitem (index_json X tc) (ustr ''b'') = Inr (JFloat (b X))"
  "getitem (index_json X tc) (ustr ''avgdl'') = Inr (JFloat (avgdl X))"
  "getitem (index_json X tc) (ustr ''doc_count'') = Inr (JInt (doc_count X))"
  "getitem (index_json X tc) (ustr ''idf'')
     = Inr (JObj (map (\<lambda>kv. (fst kv, JFloat (snd kv))) (idf X)))"
  "getitem (index_json X tc) (ustr ''doc_lengths'') = Inr (JArr (map JInt (doc_lengths X)))"
  "getitem (index_json X tc) (ustr ''documents'') = Inr (JArr (map document_json (documents X)))"
  "getitem (index_json X tc) (ustr ''doc_term_counts'')
     = Inr (JArr (map (\<lambda>c. JObj (map (\<lambda>kv. (fst kv, JInt (snd kv))) (dict c))) tc))"
  by (simp_all add: getitem_def index_json_def ustr_def)

lemma decode_fields:
  "each_value as_number (map (\<lambda>kv. (fst kv, JFloat (snd kv))) xs) = Inr xs"
  "each as_int (map JInt ns) = Inr ns"
  "each as_document (map document_json ds) = Inr ds"
  "each (\<lambda>c. ebind (as_dict c) (each_value as_int))
     (map (\<lambda>c. JObj (map (\<lambda>kv. (fst kv, JInt (snd kv))) (dict c))) tc) = Inr (map dict tc)"
proof -
  show "each_value as_number (map (\<lambda>kv. (fst kv, JFloat (snd kv))) xs) = Inr xs"
    by (rule each_value_map) (simp add: as_number_def)
  show "each as_int (map JInt ns) = Inr ns"
    by (rule each_map) (simp add: as_int_def)
  show "each as_document (map document_json ds) = Inr ds"
    by (rule each_map) (rule as_document_json)
  have i: "each_value as_int (map (\<lambda>kv. (fst kv, JInt (snd kv))) c) = Inr c" for c
    by (rule each_value_map) (simp add: as_int_def)
  have "each (\<lambda>c. ebind (as_dict c) (each_value as_int))
     (map (\<lambda>c. JObj (map (\<lambda>kv. (fst kv, JInt (snd kv))) c)) (map dict tc)) = Inr (map dict tc)"
    by (rule each_map) (simp add: as_dict_def ebind_Inr i)
  then show "each (\<lambda>c. ebind (as_dict c) (each_value as_int))
     (map (\<lambda>c. JObj (map (\<lambda>kv. (fst kv, JInt (snd kv))) (dict c))) tc) = Inr (map dict tc)"
    by (simp add: comp_def)
qed

lemma as_simps:
  "as_number (JFloat x) = Inr x" "as_number (JInt n) = Inr (real_of_int n)"
  "as_int (JInt n) = Inr n" "as_str (JStr t) = Inr t"
  "as_list (JArr xs) = Inr xs" "as_dict (JObj items) = Inr items"
  by (simp_all add: as_number_def as_int_def as_str_def as_list_def as_dict_def)

lemma dict_roundtrip: "map (Counter_of_dict \<circ> dict) cs = cs"
  by (induction cs) (simp_all add: dict_def Counter_of_dict_def)

lemma load_data_index_json:
  "load_data Y (index_json X tc)
     = Inr \<lparr>k1 = k1 X, b = b X, avgdl = avgdl X, doc_count = doc_count X, idf = idf X,
            doc_lengths = doc_lengths X, documents = documents X, doc_term_counts = Some tc\<rparr>"
  unfolding load_data_def getitem_index_json
  by (cases Y)
     (simp add: ebind_Inr as_simps decode_fields dict_roundtrip)

lemma load_data_roundtrip:
  assumes "doc_term_counts X = Some tc"
  shows "load_data Y (index_json X tc) = Inr X"
proof -
  have "\<lparr>k1 = k1 X, b = b X, avgdl = avgdl X, doc_count = doc_count X, idf = idf X,
      doc_lengths = doc_lengths X, documents = documents X, doc_term_counts = Some tc\<rparr> = X"
    using assms by (cases X) simp
  then show ?thesis
    by (simp only: load_data_index_json)
qed


lemma save_cases:
  "save X p can_open store = (store', r) \<Longrightarrow>
     (r = Inl AttributeError \<and> store' = store \<and> doc_term_counts X = None)
   \<or> (r = Inl OSError \<and> store' = store \<and> \<not> can_open p)
   \<or> (\<exists>tc. r = Inl UnicodeEncodeError \<and> store' = store(p \<mapsto> Corrupt)
         \<and> doc_term_counts X = Some tc \<and> can_open p \<and> \<not> json_ok (index_json X tc))
   \<or> (\<exists>tc. r = Inr () \<and> store' = store(p \<mapsto> Saved (index_json X tc))
         \<and> doc_term_counts X = Some tc \<and> can_open p \<and> json_ok (index_json X tc))"
  by (auto simp: save_def split: option.splits if_splits)

lemma save_returns:
  assumes "doc_term_counts X = Some tc" and "can_open p" and "json_ok (index_json X tc)"
  shows "save X p can_open store = (store(p \<mapsto> Saved (index_json X tc)), Inr ())"
  using assms by (simp add: save_def)

lemma save_Inr:
  assumes "save X p can_open store = (store', Inr u)"
  shows "\<exists>tc. doc_term_counts X = Some tc \<and> store' = store(p \<mapsto> Saved (index_json X tc))"
  using save_cases [OF assms] by auto

lemma load_after_save:
  assumes "save X p can_open store = (store', Inr u)"
  shows "load Y p store' = Inr X"
proof -
  from save_Inr [OF assms] obtain tc where tc: "doc_term_counts X = Some tc"
    and s: "store' = store(p \<mapsto> Saved (index_json X tc))" by blast
  show ?thesis
    unfolding s by (simp add: load_def load_data_roundtrip [OF tc])
qed

lemma load_Corrupt: "store p = Some Corrupt \<Longrightarrow> load Y p store = Inl JSONDecodeError"
  by (simp add: load_def)

lemma utf8_ok_keys:
  "utf8_ok (ustr ''k1'')" "utf8_ok (ustr ''b'')" "utf8_ok (ustr ''avgdl'')"
  "utf8_ok (ustr ''doc_count'')" "utf8_ok (ustr ''idf'')" "utf8_ok (ustr ''doc_lengths'')"
  "utf8_ok (ustr ''documents'')" "utf8_ok (ustr ''doc_term_counts'')"
  "utf8_ok (ustr ''content'')" "utf8_ok (ustr ''meta'')" "utf8_ok (ustr ''path'')"
  "utf8_ok (ustr ''filename'')"
  by (simp_all add: utf8_ok_def ustr_def)

lemma json_ok_document_json: "json_ok (document_json d) = document_ok d"
  by (simp add: document_json_def document_ok_def utf8_ok_keys)

lemma json_ok_index_json:
  "json_ok (index_json X tc) \<longleftrightarrow>
     (\<forall>t\<in>fst ` set (idf X). utf8_ok t) \<and> (\<forall>d\<in>set (documents X). document_ok d)
     \<and> (\<forall>c\<in>set tc. \<forall>t\<in>fst ` set c. utf8_ok t)"
  by (simp add: index_json_def utf8_ok_keys json_ok_document_json dict_def)

lemma utf8_ok_subset: "set t \<subseteq> set s \<Longrightarrow> utf8_ok s \<Longrightarrow> utf8_ok t"
  by (auto simp: utf8_ok_def)

lemma set_tokenize:
  assumes "t \<in> set (tokenize uni s)"
  shows "set t \<subseteq> set s"
proof -
  have r: "set (re_sub uni s) \<subseteq> set s"
    by (auto simp: re_sub_def)
  have "set (slice (re_sub uni s) i j) \<subseteq> set (re_sub uni s)" for i j
    unfolding slice_def by (meson set_drop_subset set_take_subset subset_trans)
  with r have "set (slice (re_sub uni s) i j) \<subseteq> set s" for i j
    by blast
  with r assms show ?thesis
    by (auto simp: tokenize_def Let_def split: if_splits)
qed

lemma keys_fit_idf: "t \<in> fst ` set (idf (fit uni self docs)) \<longleftrightarrow> spec_in_idf uni docs t"
proof -
  have "t \<in> fst ` set (idf (fit uni self docs)) \<longleftrightarrow> map_of (idf (fit uni self docs)) t \<noteq> None"
    by (simp add: map_of_eq_None_iff)
  then show ?thesis
    by (simp add: fit_idf)
qed

lemma json_ok_fit:
  "json_ok (index_json (fit uni self docs) (map (\<lambda>d. Counter (tokenize uni (content d))) docs))
     \<longleftrightarrow> (\<forall>d\<in>set docs. document_ok d)"
proof
  assume "json_ok (index_json (fit uni self docs)
      (map (\<lambda>d. Counter (tokenize uni (content d))) docs))"
  then show "\<forall>d\<in>set docs. document_ok d"
    by (simp add: json_ok_index_json fit_fields)
next
  assume ok: "\<forall>d\<in>set docs. document_ok d"
  have tok: "utf8_ok t" if "d \<in> set docs" and "t \<in> set (tokenize uni (content d))" for d t
  proof -
    from ok that(1) have "utf8_ok (content d)"
      by (simp add: document_ok_def)
    with set_tokenize [OF that(2)] show ?thesis
      by (rule utf8_ok_subset)
  qed
  have i: "\<forall>t\<in>fst ` set (idf (fit uni self docs)). utf8_ok t"
  proof
    fix t assume "t \<in> fst ` set (idf (fit uni self docs))"
    then have "spec_in_idf uni docs t"
      by (simp only: keys_fit_idf)
    then show "utf8_ok t"
      using tok by (auto simp: spec_in_idf_def)
  qed
  have c: "\<forall>c\<in>set (map (\<lambda>d. Counter (tokenize uni (content d))) docs).
      \<forall>t\<in>fst ` set c. utf8_ok t"
  proof (intro ballI)
    fix c t assume c: "c \<in> set (map (\<lambda>d. Counter (tokenize uni (content d))) docs)"
      and t: "t \<in> fst ` set c"
    from c obtain d where d: "d \<in> set docs" and e: "c = Counter (tokenize uni (content d))"
      by auto
    from t have "t \<in> set (tokenize uni (content d))"
      unfolding e by (simp only: keys_Counter)
    with d show "utf8_ok t" by (rule tok)
  qed
  from i ok c show "json_ok (index_json (fit uni self docs)
      (map (\<lambda>d. Counter (tokenize uni (content d))) docs))"
    by (simp only: json_ok_index_json fit_fields)
qed

lemma save_fit:
  "save (fit uni self docs) p can_open store =
     (if \<not> can_open p then (store, Inl OSError)
      else if \<forall>d\<in>set docs. document_ok d
      then (store(p \<mapsto> Saved (index_json (fit uni self docs)
              (map (\<lambda>d. Counter (tokenize uni (content d))) docs))), Inr ())
      else (store(p \<mapsto> Corrupt), Inl UnicodeEncodeError))"
  by (simp add: save_def fit_fields json_ok_fit)

lemma save_returns_iff:
  "(\<exists>store'. save X p can_open store = (store', Inr ()))
     \<longleftrightarrow> can_open p \<and> (\<exists>tc. doc_term_counts X = Some tc \<and> json_ok (index_json X tc))"
  by (auto simp: save_def split: option.splits)

lemma save_fit_returns_iff:
  "(\<exists>store'. save (fit uni self docs) p can_open store = (store', Inr ()))
     \<longleftrightarrow> can_open p \<and> (\<forall>d\<in>set docs. document_ok d)"
  by (simp add: save_fit)

text \<open>
  C2, as amended. Whenever \<open>save\<close> of an index \<open>X\<close> to a path \<open>p\<close> returns, \<open>load\<close> from
  \<open>p\<close> into any index \<open>Y\<close> returns, the loaded index has the eight attributes of \<open>X\<close>,
  and every later search on it returns what it returns on \<open>X\<close>: the same documents in
  the same order with equal scores, or the same exception. \<open>save\<close> returns exactly when
  the file can be opened for writing, \<open>X\<close> has its term counts (it was fitted or
  loaded), and every string of \<open>X\<close> can be encoded; for an index built by \<open>fit\<close> the
  latter two mean that the content, the path and the file name of every document can
  be encoded. The round trip goes through the JSON value of the dictionary
  \<^verbatim>\<open>data\<close> and the lookups of \<open>load\<close> by key.
\<close>

theorem save_load_roundtrip:
  "(save X p can_open store = (store', Inr ()) \<longrightarrow>
       load Y p store' = Inr X
     \<and> ebind (load Y p store') (\<lambda>Y'. search uni' Y' query_text top_k)
         = search uni' X query_text top_k)
   \<and> ((\<exists>store'. save X p can_open store = (store', Inr ()))
        \<longleftrightarrow> can_open p \<and> (\<exists>tc. doc_term_counts X = Some tc \<and> json_ok (index_json X tc)))
   \<and> ((\<exists>store'. save (fit uni self docs) p can_open store = (store', Inr ()))
        \<longleftrightarrow> can_open p \<and> (\<forall>d\<in>set docs. document_ok d))"
proof (intro conjI impI)
  assume s: "save X p can_open store = (store', Inr ())"
  show l: "load Y p store' = Inr X"
    by (rule load_after_save [OF s])
  show "ebind (load Y p store') (\<lambda>Y'. search uni' Y' query_text top_k)
         = search uni' X query_text top_k"
    unfolding l by (simp add: ebind_Inr)
next
  show "(\<exists>store'. save X p can_open store = (store', Inr ()))
        \<longleftrightarrow> can_open p \<and> (\<exists>tc. doc_term_counts X = Some tc \<and> json_ok (index_json X tc))"
    by (rule save_returns_iff)
next
  show "(\<exists>store'. save (fit uni self docs) p can_open store = (store', Inr ()))
        \<longleftrightarrow> can_open p \<and> (\<forall>d\<in>set docs. document_ok d)"
    by (rule save_fit_returns_iff)
qed

lemma ex_documents_ok: "document_ok ex_doc1" "document_ok ex_doc2"
  by (simp_all add: document_ok_def utf8_ok_def ex_doc1_def ex_doc2_def)

lemma ex_save:
  "save (fit bot self [ex_doc1, ex_doc2]) p top store
     = (store(p \<mapsto> Saved (index_json (fit bot self [ex_doc1, ex_doc2])
          (map (\<lambda>d. Counter (tokenize bot (content d))) [ex_doc1, ex_doc2]))), Inr ())"
  by (simp add: save_fit ex_documents_ok)

theorem save_load_roundtrip_witness:
  "(\<exists>store'. save (fit bot (SimpleBM25 (3 / 2) (3 / 4)) [ex_doc1, ex_doc2]) [110 :: nat] top Map.empty
       = (store', Inr ())
       \<and> load (SimpleBM25 (3 / 2) (3 / 4)) [110 :: nat] store'
           = Inr (fit bot (SimpleBM25 (3 / 2) (3 / 4)) [ex_doc1, ex_doc2])
       \<and> ebind (load (SimpleBM25 (3 / 2) (3 / 4)) [110 :: nat] store')
            (\<lambda>Y'. search bot Y' [97, 98] 3)
           = Inr [(ln (6 / 5) * (10 / 7), ex_doc1), (ln (6 / 5), ex_doc2)])
   \<and> document_ok ex_doc1 \<and> document_ok ex_doc2"
proof -
  let ?X = "fit bot (SimpleBM25 (3 / 2) (3 / 4)) [ex_doc1, ex_doc2]"
  note r = save_load_roundtrip [where X = ?X and p = "[110 :: nat]" and can_open = top
      and store = Map.empty and Y = "SimpleBM25 (3 / 2) (3 / 4)" and uni = bot
      and self = "SimpleBM25 (3 / 2) (3 / 4)" and docs = "[ex_doc1, ex_doc2]" and uni' = bot
      and query_text = "[97, 98]" and top_k = 3]
  have ok: "top [110 :: nat] \<and> (\<forall>d\<in>set [ex_doc1, ex_doc2]. document_ok d)"
    by (simp add: ex_documents_ok)
  from r [THEN conjunct2, THEN conjunct2, THEN iffD2, OF ok]
  obtain store' where s: "save ?X [110 :: nat] top Map.empty = (store', Inr ())"
    by blast
  note c = r [where store' = store', THEN conjunct1, THEN mp, OF s]
  have q: "search bot ?X [97, 98] 3 = Inr [(ln (6 / 5) * (10 / 7), ex_doc1), (ln (6 / 5), ex_doc2)]"
    by (simp add: ex_search slice_to_def)
  from s c [THEN conjunct1] c [THEN conjunct2, unfolded q]
  have "\<exists>store'. save ?X [110 :: nat] top Map.empty = (store', Inr ())
       \<and> load (SimpleBM25 (3 / 2) (3 / 4)) [110 :: nat] store' = Inr ?X
       \<and> ebind (load (SimpleBM25 (3 / 2) (3 / 4)) [110 :: nat] store')
            (\<lambda>Y'. search bot Y' [97, 98] 3)
           = Inr [(ln (6 / 5) * (10 / 7), ex_doc1), (ln (6 / 5), ex_doc2)]"
    by (intro exI [of _ store'] conjI)
  with ex_documents_ok show ?thesis
    by (intro conjI)
qed

text \<open>
  The claim as stated fails for an index with a string that cannot be encoded. The
  document \<open>ex_doc_bad\<close> is the one that \<open>build_novel_index\<close> reads from a file whose
  name is not UTF-8. \<open>save\<close> of the index built from it raises and leaves a truncated
  file, and \<open>load\<close> from that file raises: no index is reproduced.
\<close>

lemma ex_doc_bad_not_ok: "\<not> document_ok ex_doc_bad"
  by (simp add: document_ok_def utf8_ok_def ex_doc_bad_def)

theorem save_surrogate_counterexample:
  "save (fit bot (SimpleBM25 (3 / 2) (3 / 4)) [ex_doc_bad]) [115 :: nat] top Map.empty
     = ([[115] \<mapsto> Corrupt], Inl UnicodeEncodeError)
   \<and> load (SimpleBM25 (3 / 2) (3 / 4)) [115 :: nat] [[115] \<mapsto> Corrupt] = Inl JSONDecodeError"
  by (simp add: save_fit ex_doc_bad_not_ok load_Corrupt)

subsection \<open>build_novel_index\<close>


lemma novel_documents_Some:
  "novel_dir st name = Some item \<Longrightarrow>
     novel_documents st name = read_files (case item of File \<Rightarrow> [] | Dir fs \<Rightarrow> fs) []"
  by (simp add: novel_documents_def)


lemma build_not_found:
  "novel_dir st name = None \<Longrightarrow> build_novel_index uni st name = (st, Inr (False, Not_found))"
  by (simp add: build_novel_index_def)

lemma build_no_documents:
  assumes "novel_dir st name = Some item" and "novel_documents st name = []"
  shows "build_novel_index uni st name = (st, Inr (False, No_documents))"
  using assms by (simp add: build_novel_index_def novel_documents_def)

lemma build_documents:
  assumes "novel_documents st name \<noteq> []"
  shows "build_novel_index uni st name =
     (if \<not> can_write st (index_path st name) then (st, Inl OSError)
      else if \<forall>d\<in>set (novel_documents st name). document_ok d
      then (st\<lparr>index_files := (index_files st)(index_path st name \<mapsto>
                  Saved (index_json (fit uni default_engine (novel_documents st name))
                    (map (\<lambda>d. Counter (tokenize uni (content d))) (novel_documents st name)))),
               engines := AList.update name (fit uni default_engine (novel_documents st name))
                  (engines st)\<rparr>,
            Inr (True, Indexed (length (novel_documents st name))))
      else (st\<lparr>index_files := (index_files st)(index_path st name \<mapsto> Corrupt)\<rparr>,
            Inl UnicodeEncodeError))"
proof -
  from assms obtain item where i: "novel_dir st name = Some item"
    by (cases "novel_dir st name") (simp_all add: novel_documents_def)
  have d: "read_files (case item of File \<Rightarrow> [] | Dir fs \<Rightarrow> fs) [] = novel_documents st name"
    by (simp add: novel_documents_Some [OF i])
  show ?thesis
    using assms unfolding build_novel_index_def i option.case Let_def d save_fit
    by simp
qed

lemma build_cases:
  "build_novel_index uni st name = (st, Inr (False, Not_found)) \<and> novel_dir st name = None
   \<or> build_novel_index uni st name = (st, Inr (False, No_documents))
       \<and> novel_dir st name \<noteq> None \<and> novel_documents st name = []
   \<or> build_novel_index uni st name = (st, Inl OSError)
       \<and> novel_documents st name \<noteq> [] \<and> \<not> can_write st (index_path st name)
   \<or> build_novel_index uni st name
        = (st\<lparr>index_files := (index_files st)(index_path st name \<mapsto> Corrupt)\<rparr>,
           Inl UnicodeEncodeError)
       \<and> novel_documents st name \<noteq> [] \<and> can_write st (index_path st name)
       \<and> \<not> (\<forall>d\<in>set (novel_documents st name). document_ok d)
   \<or> build_novel_index uni st name
        = (st\<lparr>index_files := (index_files st)(index_path st name \<mapsto>
                  Saved (index_json (fit uni default_engine (novel_documents st name))
                    (map (\<lambda>d. Counter (tokenize uni (content d))) (novel_documents st name)))),
               engines := AList.update name (fit uni default_engine (novel_documents st name))
                  (engines st)\<rparr>,
            Inr (True, Indexed (length (novel_documents st name))))
       \<and> novel_documents st name \<noteq> [] \<and> can_write st (index_path st name)
       \<and> (\<forall>d\<in>set (novel_documents st name). document_ok d)"
proof (cases "novel_dir st name")
  case None
  from build_not_found [OF this] None show ?thesis by simp
next
  case (Some item)
  show ?thesis
  proof (cases "novel_documents st name = []")
    case True
    from build_no_documents [OF Some True] Some True show ?thesis by simp
  next
    case False
    show ?thesis
      unfolding build_documents [OF False] using False by simp
  qed
qed

lemma index_path_frame:
  "index_path (st\<lparr>index_files := store, engines := cache\<rparr>) name = index_path st name"
  "index_path (st\<lparr>index_files := store\<rparr>) name = index_path st name"
  "index_path (st\<lparr>engines := cache\<rparr>) name = index_path st name"
  by (simp_all add: index_path_def)


subsection \<open>The example collections\<close>

lemma preload_loop_frame:
  "listing (preload_loop st items) = listing st"
  "place (preload_loop st items) = place st"
  "dirs (preload_loop st items) = dirs st"
  "index_files (preload_loop st items) = index_files st"
  "can_write (preload_loop st items) = can_write st"
  by (induction st items rule: preload_loop.induct;
      simp add: index_path_def split: sum.splits)+

lemma preload_frame:
  "listing (preload_indices st) = listing st"
  "place (preload_indices st) = place st"
  "dirs (preload_indices st) = dirs st"
  "index_files (preload_indices st) = index_files st"
  "can_write (preload_indices st) = can_write st"
  by (simp_all add: preload_indices_def preload_loop_frame split: option.splits)

lemma MemoryManager_frame:
  "listing (MemoryManager d) = listing d"
  "place (MemoryManager d) = place d"
  "dirs (MemoryManager d) = dirs d"
  "index_files (MemoryManager d) = index_files d"
  "can_write (MemoryManager d) = can_write d"
  by (simp_all add: MemoryManager_def preload_frame)





lemma ex_read_files:
  "read_files [ex_file1, ex_file2] [] = [ex_doc1, ex_doc2]"
  "read_files [ex_file3] [] = [\<lparr>content = [97, 98],
       meta = \<lparr>path = [109, 47, 51, 46, 116, 120, 116], filename = [51, 46, 116, 120, 116]\<rparr>\<rparr>]"
  "read_files [ex_file_md] [] = []"
  "read_files [ex_file_bad] [] = [ex_doc_bad]"
  by (simp_all add: endswith_def ustr_def ex_file1_def ex_file2_def ex_file3_def ex_file_md_def
      ex_file_bad_def ex_doc1_def ex_doc2_def ex_doc_bad_def)





subsection \<open>query\<close>

lemma query_cached_state: "fst (query_cached uni st name query_text top_k) = st"
  by (simp add: query_cached_def split: option.splits sum.splits)


lemma query_corrupt_sidecar:
  assumes "map_of (engines st) name = None"
    and "index_files st (index_path st name) = Some Corrupt"
  shows "query uni st name query_text top_k = (st, Inl JSONDecodeError)"
  using assms by (simp add: query_def load_Corrupt)

text \<open>
  The other paths of \<open>query\<close> do what is expected of them: an index file that loads is
  cached and searched, without an index file the collection is built on demand, and a
  failed build gives the empty result list.
\<close>

lemma query_build_fails:
  assumes "map_of (engines st) name = None" and "index_files st (index_path st name) = None"
    and "build_novel_index uni st name = (st', Inr (False, msg))"
  shows "query uni st name query_text top_k = (st', Inr [])"
  using assms by (simp add: query_def)

lemma query_builds_on_demand:
  assumes "map_of (engines st) name = None" and "index_files st (index_path st name) = None"
    and "build_novel_index uni st name = (st', Inr (True, msg))"
  shows "query uni st name query_text top_k = query_cached uni st' name query_text top_k"
  using assms by (simp add: query_def)

lemma query_loads_sidecar:
  assumes "map_of (engines st) name = None"
    and "load default_engine (index_path st name) (index_files st) = Inr engine"
  shows "query uni st name query_text top_k =
     query_cached uni (st\<lparr>engines := AList.update name engine (engines st)\<rparr>)
       name query_text top_k"
proof -
  from assms(2) have "index_files st (index_path st name) \<noteq> None"
    by (auto simp: load_def split: option.splits)
  with assms show ?thesis
    by (simp add: query_def)
qed

lemma ex_corrupt_fields:
  "listing (MemoryManager (ex_disk\<lparr>index_files := [[110] \<mapsto> Corrupt]\<rparr>))
     = Some [([110], True), ([109], True), ([101], True)]"
  "place (MemoryManager (ex_disk\<lparr>index_files := [[110] \<mapsto> Corrupt]\<rparr>)) = (\<lambda>name. name)"
  "dirs (MemoryManager (ex_disk\<lparr>index_files := [[110] \<mapsto> Corrupt]\<rparr>))
     = [[110] \<mapsto> Dir [ex_file1, ex_file2], [109] \<mapsto> Dir [ex_file3],
              [101] \<mapsto> Dir [ex_file_md]]"
  "index_files (MemoryManager (ex_disk\<lparr>index_files := [[110] \<mapsto> Corrupt]\<rparr>))
     = [[110] \<mapsto> Corrupt]"
  "can_write (MemoryManager (ex_disk\<lparr>index_files := [[110] \<mapsto> Corrupt]\<rparr>)) = (\<lambda>p. True)"
  "engines (MemoryManager (ex_disk\<lparr>index_files := [[110] \<mapsto> Corrupt]\<rparr>)) = []"
  by (simp_all add: MemoryManager_frame)
     (simp_all add: ex_disk_def MemoryManager_def preload_indices_def index_path_def load_Corrupt)

text \<open>
  C4. The directory \<^verbatim>\<open>n\<close> holds two readable text files and an index file that is
  not valid JSON. Creating the manager absorbs the exception of \<open>load\<close> and leaves
  \<^verbatim>\<open>n\<close> uncached; \<open>query\<close> for \<^verbatim>\<open>n\<close> then calls \<open>load\<close> again, outside any handler,
  and the exception reaches the caller: nothing is built although a build of \<^verbatim>\<open>n\<close> from
  the same text files succeeds.
\<close>

theorem query_corrupt_sidecar_raises:
  "engines (MemoryManager (ex_disk\<lparr>index_files := [[110] \<mapsto> Corrupt]\<rparr>)) = []
   \<and> query bot (MemoryManager (ex_disk\<lparr>index_files := [[110] \<mapsto> Corrupt]\<rparr>)) [110] [97, 98] 3
       = (MemoryManager (ex_disk\<lparr>index_files := [[110] \<mapsto> Corrupt]\<rparr>), Inl JSONDecodeError)
   \<and> snd (build_novel_index bot (MemoryManager (ex_disk\<lparr>index_files := [[110] \<mapsto> Corrupt]\<rparr>))
            [110])
       = Inr (True, Indexed 2)"
proof -
  let ?st = "MemoryManager (ex_disk\<lparr>index_files := [[110] \<mapsto> Corrupt]\<rparr>)"
  have e: "engines ?st = []"
    by (rule ex_corrupt_fields)
  have q: "query bot ?st [110] [97, 98] 3 = (?st, Inl JSONDecodeError)"
    by (rule query_corrupt_sidecar) (simp_all add: ex_corrupt_fields index_path_def)
  have d: "novel_documents ?st [110] = [ex_doc1, ex_doc2]"
  proof -
    have "novel_dir ?st [110] = Some (Dir [ex_file1, ex_file2])"
      by (simp add: novel_dir_def ex_corrupt_fields)
    then show ?thesis
      unfolding novel_documents_def by (simp only: option.case node.case ex_read_files)
  qed
  have ne: "novel_documents ?st [110] \<noteq> []"
    unfolding d by simp
  have b: "snd (build_novel_index bot ?st [110]) = Inr (True, Indexed 2)"
    unfolding build_documents [OF ne] d
    by (simp add: ex_corrupt_fields ex_documents_ok)
  from e q b show ?thesis
    by (intro conjI)
qed

subsection \<open>search_all\<close>











lemma build_frame:
  assumes "build_novel_index uni st name = (st', r)"
  shows "listing st' = listing st" and "place st' = place st" and "dirs st' = dirs st"
    and "can_write st' = can_write st"
  using build_cases [of uni st name] assms by auto



lemma build_all_frame:
  assumes "build_all uni items st = (st2, r)"
  shows "listing st2 = listing st \<and> place st2 = place st \<and> dirs st2 = dirs st
     \<and> can_write st2 = can_write st"
  using assms
proof (induction items arbitrary: st)
  case Nil
  then show ?case by simp
next
  case (Cons item items)
  obtain name is_dir where i: "item = (name, is_dir)" by (cases item)
  show ?case
  proof (cases is_dir)
    case False
    with Cons i show ?thesis by simp
  next
    case True
    obtain st' r' where b: "build_novel_index uni st name = (st', r')"
      by (cases "build_novel_index uni st name")
    show ?thesis
    proof (cases r')
      case (Inl e)
      with Cons.prems i True b have "st2 = st'" by simp
      with build_frame [OF b] show ?thesis by simp
    next
      case (Inr outcome)
      with Cons.prems i True b have "build_all uni items st' = (st2, r)" by simp
      from Cons.IH [OF this] build_frame [OF b] show ?thesis by simp
    qed
  qed
qed







subsection \<open>The example manager\<close>












subsection \<open>What search_all does\<close>







end
